theory Spec2Isabelle
  imports Complex_Main "HOL-Library.Multiset" "HOL-Library.Product_Lexorder" "HOL-Library.AList"
begin

section \<open>Python values\<close>

text \<open>
  Python's unbounded integers are \<open>int\<close>.  An uncaught exception is a value \<open>Inl e\<close> of a
  sum type.  The floats of the vesting projector and of the volume normalizer are IEEE 754
  doubles, modelled below; each of these two functions is given a second time in exact
  arithmetic, with its floats read as the real numbers they approximate.  The floats of
  the chain reader, of the holdings aggregators and of the rewards projection are read as
  real numbers.
\<close>

datatype py_error = ZeroDivisionError | OverflowError | ValueError

text \<open>
  Python's built-in \<^verbatim>\<open>round(x)\<close> with one argument: the nearest integer, a tie going
  to the even neighbour.
\<close>

definition py_round :: "real \<Rightarrow> int" where
  "py_round x =
     (let f = \<lfloor>x\<rfloor> in
      if x - real_of_int f < 1 / 2 then f
      else if 1 / 2 < x - real_of_int f then f + 1
      else if even f then f else f + 1)"

subsection \<open>Floats: IEEE 754 double precision\<close>

text \<open>
  A finite double is a real number \<open>m * 2 ^ e\<close> with integers \<open>\<bar>m\<bar> < 2 ^ 53\<close> and
  \<open>- 1074 \<le> e \<le> 971\<close>.  Around a real \<open>x\<close> with \<open>2 ^ e \<le> \<bar>x\<bar> < 2 ^ (e + 1)\<close> the doubles
  are the multiples of \<open>2 ^ (e - 52)\<close>, and below \<open>2 ^ (- 1022)\<close> (the subnormal range) the
  multiples of \<open>2 ^ (- 1074)\<close>: this spacing is \<open>double_quantum x\<close>.  Every float operation
  of CPython returns the double nearest to the exact result, a tie going to the even
  multiple: \<open>round_double\<close>.
\<close>

definition double_exponent :: "real \<Rightarrow> int" where
  "double_exponent x = max \<lfloor>log 2 \<bar>x\<bar>\<rfloor> (- 1022)"

definition double_quantum :: "real \<Rightarrow> real" where
  "double_quantum x = 2 powr real_of_int (double_exponent x - 52)"

definition round_double :: "real \<Rightarrow> real" where
  "round_double x =
     (if x = 0 then 0
      else real_of_int (py_round (x / double_quantum x)) * double_quantum x)"

text \<open>
  A float is a finite double, an infinity or a NaN.  The sign of a zero is not modelled
  (\<^verbatim>\<open>0.0 == -0.0\<close> in Python).  A result whose rounded magnitude reaches \<open>2 ^ 1024\<close> is an
  infinity.
\<close>

datatype double = Finite real | PInf | NInf | NaN

definition double_limit :: real where
  "double_limit = 2 ^ 1024"

definition to_double :: "real \<Rightarrow> double" where
  "to_double x =
     (let y = round_double x in
      if double_limit \<le> y then PInf else if y \<le> - double_limit then NInf else Finite y)"

text \<open>The float operations \<^verbatim>\<open>+\<close>, unary \<^verbatim>\<open>-\<close>, binary \<^verbatim>\<open>-\<close> and \<^verbatim>\<open>*\<close>.\<close>

fun double_add :: "double \<Rightarrow> double \<Rightarrow> double" where
  "double_add (Finite a) (Finite b) = to_double (a + b)"
| "double_add NaN b = NaN"
| "double_add a NaN = NaN"
| "double_add PInf NInf = NaN"
| "double_add NInf PInf = NaN"
| "double_add PInf b = PInf"
| "double_add a PInf = PInf"
| "double_add NInf b = NInf"
| "double_add a NInf = NInf"

fun double_neg :: "double \<Rightarrow> double" where
  "double_neg (Finite a) = Finite (- a)"
| "double_neg PInf = NInf"
| "double_neg NInf = PInf"
| "double_neg NaN = NaN"

definition double_sub :: "double \<Rightarrow> double \<Rightarrow> double" where
  "double_sub a b = double_add a (double_neg b)"

fun double_sign :: "double \<Rightarrow> real" where
  "double_sign (Finite a) = sgn a"
| "double_sign PInf = 1"
| "double_sign NInf = - 1"
| "double_sign NaN = 0"

fun double_mul :: "double \<Rightarrow> double \<Rightarrow> double" where
  "double_mul (Finite a) (Finite b) = to_double (a * b)"
| "double_mul NaN b = NaN"
| "double_mul a NaN = NaN"
| "double_mul a b =
     (if double_sign a * double_sign b = 0 then NaN
      else if 0 < double_sign a * double_sign b then PInf else NInf)"

text \<open>
  The float division \<^verbatim>\<open>/\<close>, which raises \<^verbatim>\<open>ZeroDivisionError\<close> on a zero divisor, and
  the comparison \<^verbatim>\<open>x > 0\<close>.
\<close>

fun double_div :: "double \<Rightarrow> double \<Rightarrow> py_error + double" where
  "double_div a (Finite b) =
     (if b = 0 then Inl ZeroDivisionError
      else case a of
             Finite x \<Rightarrow> Inr (to_double (x / b))
           | NaN \<Rightarrow> Inr NaN
           | i \<Rightarrow> Inr (if 0 < double_sign i * sgn b then PInf else NInf))"
| "double_div a NaN = Inr NaN"
| "double_div (Finite x) i = Inr (Finite 0)"
| "double_div a i = Inr NaN"

fun double_gt_zero :: "double \<Rightarrow> bool" where
  "double_gt_zero (Finite a) = (0 < a)"
| "double_gt_zero PInf = True"
| "double_gt_zero b = False"

text \<open>
  An \<^verbatim>\<open>int\<close> operand of a float operation is converted to the nearest double;
  \<^verbatim>\<open>OverflowError\<close> when it is too large.  The true division \<^verbatim>\<open>a / b\<close> of two \<^verbatim>\<open>int\<close>s is
  the double nearest to the exact quotient; \<^verbatim>\<open>ZeroDivisionError\<close> when \<^verbatim>\<open>b\<close> is 0,
  \<^verbatim>\<open>OverflowError\<close> when the quotient is too large.
\<close>

definition int_to_double :: "int \<Rightarrow> py_error + double" where
  "int_to_double n =
     (let y = round_double (real_of_int n) in
      if double_limit \<le> \<bar>y\<bar> then Inl OverflowError else Inr (Finite y))"

definition int_true_div :: "int \<Rightarrow> int \<Rightarrow> py_error + double" where
  "int_true_div a b =
     (if b = 0 then Inl ZeroDivisionError
      else let y = round_double (real_of_int a / real_of_int b) in
           if double_limit \<le> \<bar>y\<bar> then Inl OverflowError else Inr (Finite y))"

text \<open>
  \<^verbatim>\<open>round(x)\<close> of a float: \<^const>\<open>py_round\<close> of its value; \<^verbatim>\<open>OverflowError\<close> on an
  infinity, \<^verbatim>\<open>ValueError\<close> on a NaN.
\<close>

fun double_round :: "double \<Rightarrow> py_error + int" where
  "double_round (Finite x) = Inr (py_round x)"
| "double_round NaN = Inl ValueError"
| "double_round i = Inl OverflowError"

text \<open>
  \<^verbatim>\<open>sum(...)\<close> over floats: it starts from the \<^verbatim>\<open>int\<close> 0 and adds the items from left to
  right, each addition rounding (CPython up to version 3.11; later versions compensate
  the rounding errors of the additions).
\<close>

definition double_sum :: "double list \<Rightarrow> double" where
  "double_sum vs = foldl double_add (Finite 0) vs"

text \<open>The real number a finite double stands for.\<close>

fun double_value :: "double \<Rightarrow> real" where
  "double_value (Finite x) = x"
| "double_value PInf = 0"
| "double_value NInf = 0"
| "double_value NaN = 0"

text \<open>
  For the error analysis: a rounding in the normal range has a relative error of at most
  \<open>double_eps\<close>, and \<open>close k x y\<close> says that \<open>y\<close> is \<open>x\<close> up to \<open>k\<close> such errors.
\<close>

definition double_eps :: real where
  "double_eps = 1 / 2 ^ 53"

definition close :: "nat \<Rightarrow> real \<Rightarrow> real \<Rightarrow> bool" where
  "close k x y \<longleftrightarrow> x * (1 - double_eps) ^ k \<le> y \<and> y \<le> x * (1 + double_eps) ^ k"

section \<open>Vesting projector (report\_dashboard.py)\<close>

record vesting_schedule =
  sched_name :: string
  sched_start :: int
  sched_end :: int
  sched_total :: int

definition VESTING_SCHEDULES :: "vesting_schedule list" where
  "VESTING_SCHEDULES =
     [\<lparr>sched_name = ''Vesting Contract'', sched_start = 1760434200, sched_end = 1823506200,
        sched_total = 14605000\<rparr>,
      \<lparr>sched_name = ''Operational 1'', sched_start = 1760434200, sched_end = 1886578200,
        sched_total = 4020000\<rparr>,
      \<lparr>sched_name = ''Operational 2'', sched_start = 1760434200, sched_end = 1774690200,
        sched_total = 1230000\<rparr>,
      \<lparr>sched_name = ''Operational 3'', sched_start = 1760434200, sched_end = 1773394200,
        sched_total = 1750000\<rparr>]"

text \<open>
  The body of the \<^verbatim>\<open>for v in VESTING_SCHEDULES\<close> loop of
  \<^verbatim>\<open>calculate_vesting_projection\<close>, with the accumulator \<^verbatim>\<open>total\<close> passed along as \<open>tot\<close>.
  The true division \<^verbatim>\<open>v["total"] / (v["end"] - v["start"])\<close> of two \<^verbatim>\<open>int\<close>s raises when
  the schedule has \<^verbatim>\<open>end == start\<close> and when the quotient is too large for a float;
  \<^verbatim>\<open>rate * (effective_end - now_ts)\<close> converts the \<^verbatim>\<open>int\<close> difference and multiplies two
  floats; \<^verbatim>\<open>total += ...\<close> is a float addition, the first one to the \<^verbatim>\<open>int\<close> 0.
\<close>

fun vesting_loop_double ::
  "int \<Rightarrow> int \<Rightarrow> vesting_schedule list \<Rightarrow> double \<Rightarrow> py_error + double" where
  "vesting_loop_double now_ts target_ts [] tot = Inr tot"
| "vesting_loop_double now_ts target_ts (v # vs) tot =
     (case int_true_div (sched_total v) (sched_end v - sched_start v) of
        Inl e \<Rightarrow> Inl e
      | Inr rate \<Rightarrow>
          let effective_end = min target_ts (sched_end v)
          in if effective_end > now_ts
             then (case int_to_double (effective_end - now_ts) of
                     Inl e \<Rightarrow> Inl e
                   | Inr n \<Rightarrow>
                       vesting_loop_double now_ts target_ts vs (double_add tot (double_mul rate n)))
             else vesting_loop_double now_ts target_ts vs tot)"

text \<open>
  \<^verbatim>\<open>calculate_vesting_projection\<close>: the current time and the parsed target date are
  inputs, and so is the schedule table; \<^verbatim>\<open>round(total)\<close> rounds the accumulated float.
\<close>

definition calculate_vesting_projection_double ::
  "int \<Rightarrow> int \<Rightarrow> vesting_schedule list \<Rightarrow> py_error + int" where
  "calculate_vesting_projection_double now_ts target_ts schedules =
     (case vesting_loop_double now_ts target_ts schedules (Finite 0) of
        Inl e \<Rightarrow> Inl e
      | Inr tot \<Rightarrow> double_round tot)"

subsection \<open>The projector in exact arithmetic\<close>



text \<open>
  The per-schedule formula in the words of the specification: the rate times the time
  from now to the effective end when that end is still ahead, nothing otherwise.
\<close>

definition spec_rate :: "vesting_schedule \<Rightarrow> real" where
  "spec_rate v = real_of_int (sched_total v) / real_of_int (sched_end v - sched_start v)"

definition spec_contribution :: "int \<Rightarrow> int \<Rightarrow> vesting_schedule \<Rightarrow> real" where
  "spec_contribution now_ts target_ts v =
     (if min target_ts (sched_end v) > now_ts
      then spec_rate v * real_of_int (min target_ts (sched_end v) - now_ts)
      else 0)"


text \<open>
  The schedules of the data model within the range of 64-bit timestamps and amounts:
  \<open>end > start\<close>, \<open>0 \<le> total < 2 ^ 63\<close>, \<open>- 2 ^ 63 \<le> start\<close> and \<open>end < 2 ^ 63\<close>.
\<close>

definition schedule_in_range :: "vesting_schedule \<Rightarrow> bool" where
  "schedule_in_range v \<longleftrightarrow>
     sched_start v < sched_end v \<and> 0 \<le> sched_total v \<and> sched_total v < 2 ^ 63 \<and>
     - (2 ^ 63) \<le> sched_start v \<and> sched_end v < 2 ^ 63"

section \<open>Exchange volume normalizer (report\_dashboard.py)\<close>

text \<open>
  The dictionary that \<^verbatim>\<open>_rolling_7day\<close> returns, over the type \<open>'v\<close> of its numbers.
\<close>

record 'v volume_sample =
  exchange :: string
  volume_7d :: 'v
  avg_daily :: 'v
  wow_pct :: "'v option"

text \<open>
  The Python slices \<^verbatim>\<open>xs[-n:]\<close> and \<^verbatim>\<open>xs[-a:-b]\<close> for positive \<open>n\<close>, \<open>a\<close>,
  \<open>b\<close>: an index before the start of the list is clamped to the start.
\<close>

definition slice_last :: "nat \<Rightarrow> 'a list \<Rightarrow> 'a list" where
  "slice_last n xs = drop (length xs - n) xs"

definition slice_between :: "nat \<Rightarrow> nat \<Rightarrow> 'a list \<Rightarrow> 'a list" where
  "slice_between a b xs = drop (length xs - a) (take (length xs - b) xs)"

text \<open>
  \<^verbatim>\<open>_rolling_7day\<close>.  Dates are values of a linear order (\<^verbatim>\<open>datetime.date\<close>), the
  current UTC date is the input \<open>today\<close>, the quote-volumes are floats.
  \<^verbatim>\<open>list.sort(key=...)\<close> is a stable sort, as \<^const>\<open>sort_key\<close> is.  The two sums are
  \<^verbatim>\<open>sum(...)\<close> over floats, \<^verbatim>\<open>* 100\<close> and \<^verbatim>\<open>/ 7\<close> convert the \<^verbatim>\<open>int\<close> to a float.
\<close>

definition rolling_7day_double ::
  "'d::linorder \<Rightarrow> ('d \<times> double) list \<Rightarrow> string \<Rightarrow> py_error + double volume_sample option" where
  "rolling_7day_double today daily_volumes exch =
     (if length daily_volumes < 7 then Inr None
      else
        let filtered = sort_key fst (filter (\<lambda>(d, v). d < today) daily_volumes)
        in if length filtered < 7 then Inr None
           else
             let current = slice_last 7 filtered;
                 cur_vol = double_sum (map snd current);
                 wow =
                   (if length filtered \<ge> 14
                    then
                      let prev = slice_between 14 7 filtered;
                          prev_vol = double_sum (map snd prev)
                      in if double_gt_zero prev_vol
                         then (case double_div (double_sub cur_vol prev_vol) prev_vol of
                                 Inl e \<Rightarrow> Inl e
                               | Inr q \<Rightarrow> Inr (Some (double_mul q (Finite 100))))
                         else Inr None
                    else Inr None)
             in case wow of
                  Inl e \<Rightarrow> Inl e
                | Inr w \<Rightarrow>
                    (case double_div cur_vol (Finite 7) of
                       Inl e \<Rightarrow> Inl e
                     | Inr avg \<Rightarrow>
                         Inr (Some \<lparr>exchange = exch, volume_7d = cur_vol, avg_daily = avg,
                                    wow_pct = w\<rparr>)))"

text \<open>
  The same function with every quote-volume read as the real number it approximates; it
  takes the same decision between a sample and absence-of-value.
\<close>

definition rolling_7day ::
  "'d::linorder \<Rightarrow> ('d \<times> real) list \<Rightarrow> string \<Rightarrow> real volume_sample option" where
  "rolling_7day today daily_volumes exch =
     (if length daily_volumes < 7 then None
      else
        let filtered = sort_key fst (filter (\<lambda>(d, v). d < today) daily_volumes)
        in if length filtered < 7 then None
           else
             let current = slice_last 7 filtered;
                 cur_vol = sum_list (map snd current);
                 wow =
                   (if length filtered \<ge> 14
                    then
                      let prev = slice_between 14 7 filtered;
                          prev_vol = sum_list (map snd prev)
                      in if prev_vol > 0
                         then Some (((cur_vol - prev_vol) / prev_vol) * 100)
                         else None
                    else None)
             in Some \<lparr>exchange = exch, volume_7d = cur_vol, avg_daily = cur_vol / 7,
                       wow_pct = wow\<rparr>)"

subsection \<open>The normalizer in the words of the specification\<close>

text \<open>The pairs that qualify: those dated strictly before the current UTC date.\<close>

definition qualifying :: "'d::linorder \<Rightarrow> ('d \<times> real) list \<Rightarrow> ('d \<times> real) list" where
  "qualifying today xs = filter (\<lambda>(d, v). d < today) xs"

text \<open>The number of qualifying days: distinct dates strictly before the current date.\<close>

definition qualifying_days :: "'d::linorder \<Rightarrow> ('d \<times> real) list \<Rightarrow> nat" where
  "qualifying_days today xs = length (remdups (map fst (qualifying today xs)))"

text \<open>
  Deduplication keeping the latest value per date: a pair is dropped when a later pair
  of the list carries the same date.
\<close>

fun dedup_latest :: "('d \<times> 'v) list \<Rightarrow> ('d \<times> 'v) list" where
  "dedup_latest [] = []"
| "dedup_latest (x # xs) =
     (if fst x \<in> set (map fst xs) then dedup_latest xs else x # dedup_latest xs)"

text \<open>The same two notions for quote-volumes that are floats.\<close>

definition qualifying_double :: "'d::linorder \<Rightarrow> ('d \<times> double) list \<Rightarrow> ('d \<times> double) list" where
  "qualifying_double today xs = filter (\<lambda>(d, v). d < today) xs"

definition qualifying_days_double :: "'d::linorder \<Rightarrow> ('d \<times> double) list \<Rightarrow> nat" where
  "qualifying_days_double today xs = length (remdups (map fst (qualifying_double today xs)))"

text \<open>
  A sample from the quote-volumes of the current window and, when there is one, of the
  previous window: the sums, the daily average and the week-over-week change, in the
  float arithmetic of \<^verbatim>\<open>_rolling_7day\<close>.
\<close>

definition window_sample ::
  "string \<Rightarrow> double list \<Rightarrow> double list option \<Rightarrow> py_error + double volume_sample option" where
  "window_sample exch current previous =
     (let cur_vol = double_sum current;
          wow = (case previous of
                   None \<Rightarrow> Inr None
                 | Some prev \<Rightarrow>
                     let prev_vol = double_sum prev
                     in if double_gt_zero prev_vol
                        then (case double_div (double_sub cur_vol prev_vol) prev_vol of
                                Inl e \<Rightarrow> Inl e
                              | Inr q \<Rightarrow> Inr (Some (double_mul q (Finite 100))))
                        else Inr None)
      in case wow of
           Inl e \<Rightarrow> Inl e
         | Inr w \<Rightarrow>
             (case double_div cur_vol (Finite 7) of
                Inl e \<Rightarrow> Inl e
              | Inr avg \<Rightarrow>
                  Inr (Some \<lparr>exchange = exch, volume_7d = cur_vol, avg_daily = avg,
                             wow_pct = w\<rparr>)))"

text \<open>
  The contract of section 4.1: exclude today, sort ascending by date, deduplicate, fail
  on fewer than 7 days, then the two windows.
\<close>

definition spec_rolling_7day_double ::
  "'d::linorder \<Rightarrow> ('d \<times> double) list \<Rightarrow> string \<Rightarrow> py_error + double volume_sample option" where
  "spec_rolling_7day_double today xs exch =
     (let days = dedup_latest (sort_key fst (qualifying_double today xs))
      in if length days < 7 then Inr None
         else window_sample exch (map snd (slice_last 7 days))
                (if length days \<ge> 14 then Some (map snd (slice_between 14 7 days)) else None))"

text \<open>
  The weeks of the specification, told by calendar days alone: \<open>later_days_double d xs\<close>
  counts the distinct dates of \<open>xs\<close> after \<open>d\<close>, and week \<open>k\<close> (0 the most recent, 1 the
  previous one) is made of the days with at least \<open>7 k\<close> and fewer than \<open>7 k + 7\<close> later
  days; \<open>week_values_double k xs\<close> lists the quote-volumes of the pairs of week \<open>k\<close> in
  the order of their dates.
\<close>

definition later_days_double :: "'d::linorder \<Rightarrow> ('d \<times> double) list \<Rightarrow> nat" where
  "later_days_double d xs = length (filter (\<lambda>d'. d < d') (remdups (map fst xs)))"

definition week_values_double :: "nat \<Rightarrow> ('d::linorder \<times> double) list \<Rightarrow> double list" where
  "week_values_double k xs =
     map snd (sort_key fst
       (filter (\<lambda>x. 7 * k \<le> later_days_double (fst x) xs \<and> later_days_double (fst x) xs < 7 * k + 7) xs))"

section \<open>Chain reader (report\_dashboard.py and telegram\_report.py)\<close>

text \<open>
  The answers of the external services are inputs.  Each read is the integer a
  successful, well-formed response carries, or \<open>None\<close> for everything the code treats as
  a failure (no response, a status other than 200 or \<^verbatim>\<open>"1"\<close>, an empty or unparsable
  result).  API keys and the pauses between requests have no part in the values.
\<close>

record raw_position =
  raw_id :: int
  raw_expiry :: int
  raw_deposit :: int

record chain_reads =
  tokenbalance :: "string \<Rightarrow> int option"
  bsc_balance_of :: "string \<Rightarrow> int option"
  vesting_claimable :: "string \<Rightarrow> int option"
  goldsky_positions :: "string \<Rightarrow> raw_position list option"
  position_rewards_call :: "int \<Rightarrow> int option"

definition DECIMALS :: nat where
  "DECIMALS = 18"

text \<open>\<^verbatim>\<open>int(...) / 10**DECIMALS\<close>\<close>

definition to_tokens :: "int \<Rightarrow> real" where
  "to_tokens n = real_of_int n / 10 ^ DECIMALS"

text \<open>\<^verbatim>\<open>str.lower\<close> on the ASCII strings that addresses are.\<close>

definition lower_char :: "char \<Rightarrow> char" where
  "lower_char c =
     (let n = (of_char c :: nat) in if 65 \<le> n \<and> n \<le> 90 then char_of (n + 32) else c)"

definition lower :: "string \<Rightarrow> string" where
  "lower s = map lower_char s"

record wallet_info =
  addr :: string
  wtype :: string

definition FOUNDATION_WALLETS :: "(string \<times> wallet_info) list" where
  "FOUNDATION_WALLETS =
     [(''treasury'',
         \<lparr>addr = ''0x715b1ddf5d6da6846eadb72d3d6f9d93148d0bb0'', wtype = ''liquid''\<rparr>),
      (''vesting_contract'',
         \<lparr>addr = ''0x4110d73ff4d4fe45af2762df2205ad95c8c9679b'', wtype = ''vesting''\<rparr>),
      (''operational'',
         \<lparr>addr = ''0xd782d294bc3e8b1a32ec9283b02893fd932d3ece'', wtype = ''liquid''\<rparr>),
      (''vesting_operational_1'',
         \<lparr>addr = ''0x3dea6f0f4d3fcd9a706e8b6b0750ab2f57dec17a'', wtype = ''vesting''\<rparr>),
      (''vesting_operational_2'',
         \<lparr>addr = ''0x332e5b70e451bdeebd36b5d3442827aa52a42f80'', wtype = ''vesting''\<rparr>),
      (''vesting_operational_3'',
         \<lparr>addr = ''0xa3314896ae22caf4bfdcb0bd4c3cabce324d8f3e'', wtype = ''vesting''\<rparr>)]"

text \<open>
  \<^verbatim>\<open>get_token_balance\<close>, \<^verbatim>\<open>get_bsc_token_balance\<close> and \<^verbatim>\<open>get_vesting_info\<close> are the
  same in both programs (the dashboard passes the API key as an argument).
\<close>

definition get_token_balance :: "chain_reads \<Rightarrow> string \<Rightarrow> real" where
  "get_token_balance env wallet =
     (case tokenbalance env wallet of Some n \<Rightarrow> to_tokens n | None \<Rightarrow> 0)"

definition get_bsc_token_balance :: "chain_reads \<Rightarrow> string \<Rightarrow> real" where
  "get_bsc_token_balance env wallet =
     (case bsc_balance_of env wallet of Some n \<Rightarrow> to_tokens n | None \<Rightarrow> 0)"

record vesting_info =
  vi_balance :: real
  vi_vested_unclaimed :: real
  vi_locked :: real

definition get_vesting_info :: "chain_reads \<Rightarrow> string \<Rightarrow> vesting_info" where
  "get_vesting_info env contract =
     (let balance = get_token_balance env contract;
          vested = (case vesting_claimable env contract of Some n \<Rightarrow> to_tokens n | None \<Rightarrow> 0);
          locked = max 0 (balance - vested)
      in \<lparr>vi_balance = balance, vi_vested_unclaimed = vested, vi_locked = locked\<rparr>)"

text \<open>
  A staking position as the aggregators hold it.  The key \<^verbatim>\<open>"stake"\<close> exists only in
  the positions read from the CSV file, and \<^verbatim>\<open>"rewards"\<close> only once the aggregator has
  set it; \<^verbatim>\<open>"expiry_utc"\<close> is \<^verbatim>\<open>"expiry_ts"\<close> as a datetime.
\<close>

record position =
  pos_id :: int
  deposit :: real
  stake :: "real option"
  expiry_ts :: int
  is_expired :: bool
  pos_rewards :: "real option"

text \<open>\<^verbatim>\<open>get_staked_positions\<close> of the dashboard: the indexer query.\<close>

definition get_staked_positions :: "chain_reads \<Rightarrow> int \<Rightarrow> string \<Rightarrow> position list" where
  "get_staked_positions env now owner =
     (case goldsky_positions env (lower owner) of
        None \<Rightarrow> []
      | Some ps \<Rightarrow>
          map (\<lambda>p. \<lparr>pos_id = raw_id p, deposit = to_tokens (raw_deposit p), stake = None,
                     expiry_ts = raw_expiry p, is_expired = (raw_expiry p \<le> now),
                     pos_rewards = None\<rparr>) ps)"

definition get_position_rewards :: "chain_reads \<Rightarrow> int \<Rightarrow> real" where
  "get_position_rewards env position_id =
     (case position_rewards_call env position_id of Some n \<Rightarrow> to_tokens n | None \<Rightarrow> 0)"

section \<open>Holdings aggregator of the dashboard (report\_dashboard.py)\<close>

text \<open>The accumulators of \<^verbatim>\<open>results\<close> that both programs keep.\<close>

record results =
  liquid :: real
  liquid_bsc :: real
  vested_unclaimed :: real
  locked_vesting :: real
  staked_total :: real
  staked_expired :: real
  staked_locked :: real
  rewards :: real
  positions :: "position list"

text \<open>\<^verbatim>\<open>results\<close> once the two totals have been stored in it.\<close>

record totals = results +
  total_sellable :: real
  total_holdings :: real

datatype wallet_data =
  Vesting_Wallet string real real real
| Liquid_Wallet string real real "real option" "nat option"

text \<open>
  What the dashboard's \<^verbatim>\<open>load_holdings\<close> returns: \<^verbatim>\<open>"wallets"\<close> maps a wallet name to
  its address and balances (for a vesting wallet: balance, vested-unclaimed, locked; for
  a liquid one: balance, BSC balance and, for the treasury, the staked sum and the number
  of positions).
\<close>

record holdings = totals +
  wallets :: "(string \<times> wallet_data) list"

definition results_init :: results where
  "results_init =
     \<lparr>liquid = 0, liquid_bsc = 0, vested_unclaimed = 0, locked_vesting = 0,
      staked_total = 0, staked_expired = 0, staked_locked = 0, rewards = 0, positions = []\<rparr>"

text \<open>
  One turn of \<^verbatim>\<open>for name, info in FOUNDATION_WALLETS.items()\<close> in the dashboard; the
  state is \<^verbatim>\<open>results\<close> without and with its \<^verbatim>\<open>"wallets"\<close> entry.  Sums are sums of
  reals, so the order of the additions is immaterial.
\<close>

definition load_holdings_step ::
  "chain_reads \<Rightarrow> int \<Rightarrow> string \<times> wallet_info \<Rightarrow> results \<times> (string \<times> wallet_data) list
     \<Rightarrow> results \<times> (string \<times> wallet_data) list" where
  "load_holdings_step env now entry st =
     (let name = fst entry; info = snd entry; res = fst st; ws = snd st in
      if wtype info = ''vesting'' then
        let vi = get_vesting_info env (addr info)
        in (res\<lparr>vested_unclaimed := vested_unclaimed res + vi_vested_unclaimed vi,
                 locked_vesting := locked_vesting res + vi_locked vi\<rparr>,
            AList.update name
              (Vesting_Wallet (addr info) (vi_balance vi) (vi_vested_unclaimed vi) (vi_locked vi))
              ws)
      else
        let bal = get_token_balance env (addr info);
            bsc_bal = get_bsc_token_balance env (addr info);
            res1 = res\<lparr>liquid := liquid res + bal, liquid_bsc := liquid_bsc res + bsc_bal\<rparr>
        in if name = ''treasury'' then
             let ps = map (\<lambda>p. p\<lparr>pos_rewards := Some (get_position_rewards env (pos_id p))\<rparr>)
                        (get_staked_positions env now (addr info));
                 total_rewards = sum_list (map (\<lambda>p. get_position_rewards env (pos_id p)) ps);
                 staked_total_v = sum_list (map deposit ps);
                 staked_expired_v = sum_list (map deposit (filter is_expired ps));
                 staked_locked_v = sum_list (map deposit (filter (\<lambda>p. \<not> is_expired p) ps))
             in (res1\<lparr>staked_total := staked_total_v, staked_expired := staked_expired_v,
                       staked_locked := staked_locked_v, rewards := total_rewards,
                       positions := ps\<rparr>,
                 AList.update name
                   (Liquid_Wallet (addr info) bal bsc_bal (Some staked_total_v) (Some (length ps)))
                   ws)
           else
             (res1, AList.update name (Liquid_Wallet (addr info) bal bsc_bal None None) ws))"

text \<open>\<^verbatim>\<open>load_holdings\<close> of the dashboard, over any wallet table.\<close>

definition load_holdings ::
  "chain_reads \<Rightarrow> int \<Rightarrow> (string \<times> wallet_info) list \<Rightarrow> holdings" where
  "load_holdings env now wallet_table =
     (let st = fold (load_holdings_step env now) wallet_table (results_init, []);
          res = fst st
      in \<lparr>liquid = liquid res, liquid_bsc = liquid_bsc res,
          vested_unclaimed = vested_unclaimed res, locked_vesting = locked_vesting res,
          staked_total = staked_total res, staked_expired = staked_expired res,
          staked_locked = staked_locked res, rewards = rewards res, positions = positions res,
          total_sellable = liquid res + liquid_bsc res + vested_unclaimed res
                             + staked_expired res + rewards res,
          total_holdings = liquid res + liquid_bsc res + vested_unclaimed res
                             + locked_vesting res + staked_total res + rewards res,
          wallets = snd st\<rparr>)"

text \<open>
  The presentation layer of the dashboard: the two market-maker amounts come from the
  sidebar (integers, at least 0) and are added to the total holdings only.
\<close>

definition total_holdings_adj :: "holdings \<Rightarrow> int \<Rightarrow> int \<Rightarrow> real" where
  "total_holdings_adj h mm_amber mm_jpeg = total_holdings h + real_of_int (mm_amber + mm_jpeg)"

definition total_sellable_adj :: "holdings \<Rightarrow> real" where
  "total_sellable_adj h = total_sellable h"

section \<open>Holdings aggregator of the digest (telegram\_report.py)\<close>

definition MM_DEFAULTS :: "(string \<times> int) list" where
  "MM_DEFAULTS = [(''amber'', 330940), (''jpeg'', 537202)]"

definition FOUNDATION_STAKING_ADDR :: string where
  "FOUNDATION_STAKING_ADDR = ''0x715b1ddf5d6da6846eadb72d3d6f9d93148d0bb0''"

text \<open>
  The optional CSV file of historical positions.  Each of the two candidate paths is
  missing, present but unreadable, or readable with rows that carry the columns the
  code reads; the columns \<^verbatim>\<open>stake\<close> and \<^verbatim>\<open>expiry_ts\<close> are the fields \<open>csv_stake\<close> and
  \<open>csv_expiry_ts\<close>.
\<close>

record csv_row =
  owner :: string
  position_id :: int
  csv_stake :: real
  net_deposited :: real
  csv_expiry_ts :: int

datatype csv_file = Missing | Unreadable | Readable "csv_row list"

text \<open>\<^verbatim>\<open>get_staked_positions\<close> of the digest: the first file with rows of the owner.\<close>

fun get_staked_positions_csv :: "int \<Rightarrow> csv_file list \<Rightarrow> string \<Rightarrow> position list" where
  "get_staked_positions_csv now [] who = []"
| "get_staked_positions_csv now (Readable df # files) who =
     (let fdn = filter (\<lambda>r. lower (owner r) = lower who) df
      in if fdn \<noteq> []
         then map (\<lambda>r. \<lparr>pos_id = position_id r, deposit = net_deposited r,
                         stake = Some (csv_stake r), expiry_ts = csv_expiry_ts r,
                         is_expired = (csv_expiry_ts r \<le> now), pos_rewards = None\<rparr>) fdn
         else get_staked_positions_csv now files who)"
| "get_staked_positions_csv now (f # files) who = get_staked_positions_csv now files who"

text \<open>
  \<^verbatim>\<open>get_all_position_rewards\<close>: one multicall per RPC URL until one answers.  A decoded
  answer is a list of \<open>(success, word)\<close>, \<open>word\<close> being the first 32 bytes of the return
  data as an integer when there are that many.  An answer longer than the list of ids
  raises inside the \<^verbatim>\<open>try\<close> and the next URL is asked.
\<close>

type_synonym multicall_answer = "(bool \<times> int option) list option"

definition store_reward :: "int \<times> bool \<times> int option \<Rightarrow> (int \<rightharpoonup> real) \<Rightarrow> (int \<rightharpoonup> real)" where
  "store_reward e m =
     (case e of (pid, success, word) \<Rightarrow>
        m(pid \<mapsto> (case word of Some n \<Rightarrow> if success then to_tokens n else 0 | None \<Rightarrow> 0)))"

fun try_rpcs :: "int list \<Rightarrow> multicall_answer list \<Rightarrow> (int \<rightharpoonup> real)" where
  "try_rpcs position_ids [] = (\<lambda>pid. if pid \<in> set position_ids then Some 0 else None)"
| "try_rpcs position_ids (None # answers) = try_rpcs position_ids answers"
| "try_rpcs position_ids (Some decoded # answers) =
     (if length decoded > length position_ids then try_rpcs position_ids answers
      else fold store_reward (zip position_ids decoded) Map.empty)"

definition get_all_position_rewards ::
  "(int list \<Rightarrow> multicall_answer list) \<Rightarrow> int list \<Rightarrow> (int \<rightharpoonup> real)" where
  "get_all_position_rewards multicall position_ids =
     (if position_ids = [] then Map.empty else try_rpcs position_ids (multicall position_ids))"

record digest_reads =
  chain :: chain_reads
  csv_files :: "csv_file list"
  multicall :: "int list \<Rightarrow> multicall_answer list"

record digest_holdings = totals +
  mm_holdings :: real

text \<open>
  \<^verbatim>\<open>load_holdings\<close> of the digest: one turn of its loop over the wallets, then the
  function, which stores the market-maker defaults and the two totals.
\<close>

definition load_holdings_digest_step ::
  "digest_reads \<Rightarrow> int \<Rightarrow> string \<times> wallet_info \<Rightarrow> results \<Rightarrow> results" where
  "load_holdings_digest_step env now entry res =
     (let name = fst entry; info = snd entry in
      if wtype info = ''vesting'' then
        let vi = get_vesting_info (chain env) (addr info)
        in res\<lparr>vested_unclaimed := vested_unclaimed res + vi_vested_unclaimed vi,
                locked_vesting := locked_vesting res + vi_locked vi\<rparr>
      else
        let bal = get_token_balance (chain env) (addr info);
            bsc_bal = get_bsc_token_balance (chain env) (addr info);
            res1 = res\<lparr>liquid := liquid res + bal, liquid_bsc := liquid_bsc res + bsc_bal\<rparr>
        in if name = ''treasury'' then
             let ps0 = get_staked_positions_csv now (csv_files env) (addr info);
                 rewards_map = get_all_position_rewards (multicall env) (map pos_id ps0);
                 reward_of = (\<lambda>p. case rewards_map (pos_id p) of Some r \<Rightarrow> r | None \<Rightarrow> 0);
                 ps = map (\<lambda>p. p\<lparr>pos_rewards := Some (reward_of p)\<rparr>) ps0;
                 total_rewards = sum_list (map reward_of ps0)
             in res1\<lparr>staked_total := sum_list (map deposit ps),
                      staked_expired := sum_list (map deposit (filter is_expired ps)),
                      staked_locked := sum_list (map deposit (filter (\<lambda>p. \<not> is_expired p) ps)),
                      rewards := total_rewards, positions := ps\<rparr>
           else res1)"

definition load_holdings_digest ::
  "digest_reads \<Rightarrow> int \<Rightarrow> (string \<times> wallet_info) list \<Rightarrow> digest_holdings" where
  "load_holdings_digest env now wallet_table =
     (let res = fold (load_holdings_digest_step env now) wallet_table results_init;
          mm = real_of_int (sum_list (map snd MM_DEFAULTS))
      in \<lparr>liquid = liquid res, liquid_bsc = liquid_bsc res,
          vested_unclaimed = vested_unclaimed res, locked_vesting = locked_vesting res,
          staked_total = staked_total res, staked_expired = staked_expired res,
          staked_locked = staked_locked res, rewards = rewards res, positions = positions res,
          total_sellable = liquid res + liquid_bsc res + vested_unclaimed res
                             + staked_expired res + rewards res,
          total_holdings = liquid res + liquid_bsc res + vested_unclaimed res
                             + locked_vesting res + staked_total res + rewards res + mm,
          mm_holdings = mm\<rparr>)"

text \<open>
  The inputs of the holdings invariant: every fetched balance, claimable amount,
  position deposit and reward is at least 0.
\<close>

definition nonneg_chain_reads :: "chain_reads \<Rightarrow> bool" where
  "nonneg_chain_reads env \<longleftrightarrow>
     (\<forall>a n. tokenbalance env a = Some n \<longrightarrow> 0 \<le> n) \<and>
     (\<forall>a n. bsc_balance_of env a = Some n \<longrightarrow> 0 \<le> n) \<and>
     (\<forall>a n. vesting_claimable env a = Some n \<longrightarrow> 0 \<le> n) \<and>
     (\<forall>a ps. goldsky_positions env a = Some ps \<longrightarrow> (\<forall>p \<in> set ps. 0 \<le> raw_deposit p)) \<and>
     (\<forall>i n. position_rewards_call env i = Some n \<longrightarrow> 0 \<le> n)"

definition nonneg_digest_reads :: "digest_reads \<Rightarrow> bool" where
  "nonneg_digest_reads env \<longleftrightarrow>
     nonneg_chain_reads (chain env) \<and>
     (\<forall>df r. Readable df \<in> set (csv_files env) \<longrightarrow> r \<in> set df \<longrightarrow> 0 \<le> net_deposited r) \<and>
     (\<forall>ids decoded s n. Some decoded \<in> set (multicall env ids) \<longrightarrow> (s, Some n) \<in> set decoded
         \<longrightarrow> 0 \<le> n)"

section \<open>Staking rewards projection of the digest (telegram\_report.py)\<close>

text \<open>A calendar date is (year, month, day), ordered as dates are.\<close>

type_synonym ymd = "nat \<times> nat \<times> nat"

definition REWARDS_SCHEDULE :: "(ymd \<times> real) list" where
  "REWARDS_SCHEDULE =
     [
      ((2025, 11, 14), 629532.04), ((2025, 12, 14), 606812.70), ((2026, 1, 14), 573129.66),
      ((2026, 2, 14), 531316.33), ((2026, 3, 14), 484654.38), ((2026, 4, 14), 436452.71),
      ((2026, 5, 14), 389669.23), ((2026, 6, 14), 346635.34), ((2026, 7, 14), 308914.21),
      ((2026, 8, 14), 277292.38), ((2026, 9, 14), 251877.93), ((2026, 10, 14), 232264.45),
      ((2026, 11, 14), 217717.58), ((2026, 12, 14), 207348.92), ((2027, 1, 14), 200254.63),
      ((2027, 2, 14), 195609.57), ((2027, 3, 14), 192718.63), ((2027, 4, 14), 191033.29),
      ((2027, 5, 14), 190144.57), ((2027, 6, 14), 189762.60), ((2027, 7, 14), 189691.36),
      ((2027, 8, 14), 189803.97), ((2027, 9, 14), 190021.68), ((2027, 10, 14), 190297.54),
      ((2027, 11, 14), 190604.61), ((2027, 12, 14), 190928.03), ((2028, 1, 14), 191259.87),
      ((2028, 2, 14), 191596.08), ((2028, 3, 14), 191934.64), ((2028, 4, 14), 192274.60),
      ((2028, 5, 14), 192615.50), ((2028, 6, 14), 192957.15), ((2028, 7, 14), 193299.47),
      ((2028, 8, 14), 193642.41), ((2028, 9, 14), 193985.98), ((2028, 10, 14), 194330.16),
      ((2028, 11, 14), 194674.95), ((2028, 12, 14), 195020.35), ((2029, 1, 14), 195366.36),
      ((2029, 2, 14), 195712.99), ((2029, 3, 14), 196060.24), ((2029, 4, 14), 196408.10),
      ((2029, 5, 14), 196756.57), ((2029, 6, 14), 197105.67), ((2029, 7, 14), 197455.38),
      ((2029, 8, 14), 197805.72), ((2029, 9, 14), 198156.68), ((2029, 10, 14), 198508.26),
      ((2029, 11, 14), 198860.46), ((2029, 12, 14), 199213.29), ((2030, 1, 14), 199566.74),
      ((2030, 2, 14), 199920.82), ((2030, 3, 14), 200275.53), ((2030, 4, 14), 200630.87),
      ((2030, 5, 14), 200986.84), ((2030, 6, 14), 201343.44), ((2030, 7, 14), 201700.67),
      ((2030, 8, 14), 202058.54), ((2030, 9, 14), 202417.04), ((2030, 10, 14), 202776.18),
      ((2030, 11, 14), 203135.96), ((2030, 12, 14), 203496.37), ((2031, 1, 14), 203857.43),
      ((2031, 2, 14), 204219.12), ((2031, 3, 14), 204581.46), ((2031, 4, 14), 204944.43),
      ((2031, 5, 14), 205308.06), ((2031, 6, 14), 205672.32), ((2031, 7, 14), 206037.24),
      ((2031, 8, 14), 206402.80), ((2031, 9, 14), 206769.01), ((2031, 10, 14), 207135.87),
      ((2031, 11, 14), 207503.38), ((2031, 12, 14), 207871.54), ((2032, 1, 14), 208240.36),
      ((2032, 2, 14), 208609.83), ((2032, 3, 14), 208979.96), ((2032, 4, 14), 209350.74),
      ((2032, 5, 14), 209722.18), ((2032, 6, 14), 210094.28), ((2032, 7, 14), 210467.04),
      ((2032, 8, 14), 210840.46), ((2032, 9, 14), 211214.54), ((2032, 10, 14), 211589.29),
      ((2032, 11, 14), 211964.70), ((2032, 12, 14), 212340.78), ((2033, 1, 14), 212717.53),
      ((2033, 2, 14), 213094.94), ((2033, 3, 14), 213473.03), ((2033, 4, 14), 213851.78),
      ((2033, 5, 14), 214231.21), ((2033, 6, 14), 214611.31), ((2033, 7, 14), 214992.08),
      ((2033, 8, 14), 215373.53), ((2033, 9, 14), 215755.66), ((2033, 10, 14), 216138.46),
      ((2033, 11, 14), 216521.95), ((2033, 12, 14), 216906.11), ((2034, 1, 14), 217290.95),
      ((2034, 2, 14), 217676.48), ((2034, 3, 14), 218062.70), ((2034, 4, 14), 218449.59),
      ((2034, 5, 14), 218837.18), ((2034, 6, 14), 219225.45), ((2034, 7, 14), 219614.41),
      ((2034, 8, 14), 220004.06), ((2034, 9, 14), 220394.40), ((2034, 10, 14), 220785.44),
      ((2034, 11, 14), 221177.17), ((2034, 12, 14), 221569.59), ((2035, 1, 14), 221962.71),
      ((2035, 2, 14), 222356.53), ((2035, 3, 14), 222751.04), ((2035, 4, 14), 223146.26),
      ((2035, 5, 14), 223542.18), ((2035, 6, 14), 223938.80), ((2035, 7, 14), 224336.12),
      ((2035, 8, 14), 224734.15), ((2035, 9, 14), 225132.88), ((2035, 10, 14), 225532.33)
     ]"

definition month_abbr :: "nat \<Rightarrow> string" where
  "month_abbr m =
     (if 1 \<le> m \<and> m \<le> 12
      then [''Jan'', ''Feb'', ''Mar'', ''Apr'', ''May'', ''Jun'',
            ''Jul'', ''Aug'', ''Sep'', ''Oct'', ''Nov'', ''Dec''] ! (m - 1)
      else [])"

fun show_nat :: "nat \<Rightarrow> string" where
  "show_nat n =
     (if n < 10 then [char_of (48 + n)]
      else show_nat (n div 10) @ [char_of (48 + n mod 10)])"

text \<open>\<^verbatim>\<open>dt.strftime("%b %Y")\<close> for the dates of the schedule.\<close>

definition strftime_b_Y :: "ymd \<Rightarrow> string" where
  "strftime_b_Y d = (case d of (y, m, dd) \<Rightarrow> month_abbr m @ '' '' @ show_nat y)"

record projection_row =
  label :: string
  reward :: real

text \<open>The first candidate path that exists and that \<^verbatim>\<open>pd.read_csv\<close> reads.\<close>

fun first_readable :: "csv_file list \<Rightarrow> csv_row list option" where
  "first_readable [] = None"
| "first_readable (Readable df # files) = Some df"
| "first_readable (f # files) = first_readable files"

definition load_staking_rewards_projection ::
  "ymd \<Rightarrow> csv_file list \<Rightarrow> projection_row list option" where
  "load_staking_rewards_projection today files =
     (case first_readable files of
        None \<Rightarrow> None
      | Some pos_df \<Rightarrow>
          let fdn = filter (\<lambda>r. lower (owner r) = lower FOUNDATION_STAKING_ADDR) pos_df;
              fdn_stake_weight = sum_list (map csv_stake fdn);
              total_stake_weight = sum_list (map csv_stake pos_df)
          in if total_stake_weight = 0 then None
             else
               let fdn_share = fdn_stake_weight / total_stake_weight;
                   future = filter (\<lambda>(d, m). d \<ge> today) REWARDS_SCHEDULE
               in if future = [] then None
                  else Some (map (\<lambda>(d, pool).
                               \<lparr>label = strftime_b_Y d, reward = pool * 0.80 * fdn_share\<rparr>)
                             (take 3 future)))"

text \<open>The share and the schedule entries that the projection speaks of.\<close>

definition foundation_share :: "csv_row list \<Rightarrow> real" where
  "foundation_share pos_df =
     sum_list (map csv_stake
        (filter (\<lambda>r. lower (owner r) = lower FOUNDATION_STAKING_ADDR) pos_df))
       / sum_list (map csv_stake pos_df)"

definition future_pools :: "ymd \<Rightarrow> (ymd \<times> real) list" where
  "future_pools today = filter (\<lambda>(d, m). today \<le> d) REWARDS_SCHEDULE"

section \<open>Invariant of the aggregation loops\<close>

definition holdings_inv :: "results \<Rightarrow> bool" where
  "holdings_inv res \<longleftrightarrow> 0 \<le> locked_vesting res \<and> staked_expired res \<le> staked_total res"

section \<open>Sample inputs\<close>

text \<open>Every request fails.\<close>

definition failing_reads :: chain_reads where
  "failing_reads =
     \<lparr>tokenbalance = (\<lambda>a. None), bsc_balance_of = (\<lambda>a. None),
      vesting_claimable = (\<lambda>a. None), goldsky_positions = (\<lambda>a. None),
      position_rewards_call = (\<lambda>i. None)\<rparr>"

definition failing_digest_reads :: digest_reads where
  "failing_digest_reads =
     \<lparr>chain = failing_reads, csv_files = [Missing, Missing], multicall = (\<lambda>ids. [None, None, None])\<rparr>"

text \<open>
  Every wallet holds 5 tokens on Ethereum and none on BSC, 2 tokens are claimable from
  every vesting contract, and the treasury has two positions of 7 and 3 tokens, the
  first one expired at time 1000, each with a reward of 1 token.
\<close>

definition sample_reads :: chain_reads where
  "sample_reads =
     \<lparr>tokenbalance = (\<lambda>a. Some (5 * 10 ^ 18)), bsc_balance_of = (\<lambda>a. Some 0),
      vesting_claimable = (\<lambda>a. Some (2 * 10 ^ 18)),
      goldsky_positions = (\<lambda>a. Some [\<lparr>raw_id = 1, raw_expiry = 50, raw_deposit = 7 * 10 ^ 18\<rparr>,
                                      \<lparr>raw_id = 2, raw_expiry = 5000, raw_deposit = 3 * 10 ^ 18\<rparr>]),
      position_rewards_call = (\<lambda>i. Some (10 ^ 18))\<rparr>"

definition sample_positions_csv :: "csv_row list" where
  "sample_positions_csv =
     [\<lparr>owner = ''0x715B1DDF5D6DA6846EADB72D3D6F9D93148D0BB0'', position_id = 1, csv_stake = 30,
        net_deposited = 7, csv_expiry_ts = 50\<rparr>,
      \<lparr>owner = ''0x715b1ddf5d6da6846eadb72d3d6f9d93148d0bb0'', position_id = 2, csv_stake = 20,
        net_deposited = 3, csv_expiry_ts = 5000\<rparr>,
      \<lparr>owner = ''0x00000000000000000000000000000000000000aa'', position_id = 3, csv_stake = 150,
        net_deposited = 40, csv_expiry_ts = 5000\<rparr>]"

definition sample_digest_reads :: digest_reads where
  "sample_digest_reads =
     \<lparr>chain = sample_reads, csv_files = [Missing, Readable sample_positions_csv],
      multicall = (\<lambda>ids. [None, Some (map (\<lambda>i. (True, Some (10 ^ 18))) ids)])\<rparr>"

text \<open>The two reads of a vesting contract disagree: balance 90, claimable 100.\<close>

definition inconsistent_reads :: chain_reads where
  "inconsistent_reads =
     \<lparr>tokenbalance = (\<lambda>a. Some (90 * 10 ^ 18)), bsc_balance_of = (\<lambda>a. None),
      vesting_claimable = (\<lambda>a. Some (100 * 10 ^ 18)), goldsky_positions = (\<lambda>a. None),
      position_rewards_call = (\<lambda>i. None)\<rparr>"

text \<open>
  A single schedule of 64,772,351 tokens over the four years of the repository's
  ``Operational 1'' schedule.
\<close>

definition late_grant :: vesting_schedule where
  "late_grant = \<lparr>sched_name = ''Grant'', sched_start = 1760434200, sched_end = 1886578200,
                  sched_total = 64772351\<rparr>"

text \<open>
  Fourteen days before day 15, given out of order together with a pair of day 15: 14 in
  the last seven days, 7 in the seven days before.
\<close>

definition sample_fortnight :: "(int \<times> double) list" where
  "sample_fortnight =
     [(14, Finite 2), (1, Finite 1), (9, Finite 3), (2, Finite 1), (3, Finite 1), (4, Finite 1),
      (5, Finite 1), (6, Finite 1), (7, Finite 1), (8, Finite 2), (10, Finite 1), (11, Finite 2),
      (12, Finite 2), (13, Finite 2), (15, Finite 40)]"

text \<open>Seven days, the last one reported twice.\<close>

definition repeated_day :: "(int \<times> double) list" where
  "repeated_day =
     [(1, Finite 9), (2, Finite 1), (3, Finite 1), (4, Finite 1), (5, Finite 1), (6, Finite 1),
      (7, Finite 2), (7, Finite 7)]"

text \<open>Fourteen days with 7 in each week, and fourteen days without any volume.\<close>

definition even_fortnight :: "(int \<times> double) list" where
  "even_fortnight =
     [(14, Finite 2), (1, Finite 1), (2, Finite 1), (3, Finite 1), (4, Finite 1), (5, Finite 1),
      (6, Finite 1), (7, Finite 1), (8, Finite 1), (9, Finite 1), (10, Finite 1), (11, Finite 1),
      (12, Finite 0), (13, Finite 1), (15, Finite 40)]"

definition zero_fortnight :: "(int \<times> double) list" where
  "zero_fortnight =
     [(1, Finite 0), (2, Finite 0), (3, Finite 0), (4, Finite 0), (5, Finite 0), (6, Finite 0),
      (7, Finite 0), (8, Finite 0), (9, Finite 0), (10, Finite 0), (11, Finite 0), (12, Finite 0),
      (13, Finite 0), (14, Finite 0)]"

text \<open>
  The floats \<^verbatim>\<open>0.1\<close>, \<^verbatim>\<open>0.2\<close> and \<^verbatim>\<open>0.3\<close>, and fourteen days whose two weeks carry these
  three volumes in opposite orders.
\<close>

definition double_tenth :: double where
  "double_tenth = to_double (1 / 10)"

definition double_fifth :: double where
  "double_fifth = to_double (1 / 5)"

definition double_three_tenths :: double where
  "double_three_tenths = to_double (3 / 10)"

definition reordered_fortnight :: "(int \<times> double) list" where
  "reordered_fortnight =
     [(1, double_three_tenths), (2, double_fifth), (3, double_tenth), (4, Finite 0),
      (5, Finite 0), (6, Finite 0), (7, Finite 0), (8, double_tenth), (9, double_fifth),
      (10, double_three_tenths), (11, Finite 0), (12, Finite 0), (13, Finite 0),
      (14, Finite 0)]"

section \<open>Properties of rounding and of the float operations\<close>

lemma py_round_nearest: "\<bar>real_of_int (py_round x) - x\<bar> \<le> 1 / 2"
  unfolding py_round_def Let_def by (auto; linarith)

lemma py_round_bounds: "\<lfloor>x\<rfloor> \<le> py_round x \<and> py_round x \<le> \<lfloor>x\<rfloor> + 1"
  unfolding py_round_def Let_def by auto

lemma py_round_mono:
  assumes "x \<le> y"
  shows "py_round x \<le> py_round y"
proof (cases "\<lfloor>x\<rfloor> = \<lfloor>y\<rfloor>")
  case True
  then show ?thesis using assms unfolding py_round_def Let_def by (auto; linarith)
next
  case False
  then have "\<lfloor>x\<rfloor> < \<lfloor>y\<rfloor>" using floor_mono[OF assms] by linarith
  then show ?thesis using py_round_bounds[of x] py_round_bounds[of y] by linarith
qed

lemma py_round_nonneg: "0 \<le> x \<Longrightarrow> 0 \<le> py_round x"
  using py_round_mono[of 0 x] by (simp add: py_round_def)

lemma two_powr_diff: "2 powr real_of_int (int a - int b) = 2 ^ a / (2 ^ b :: real)"
  by (simp add: powr_diff powr_realpow)

lemma double_exponent_eq:
  assumes "2 powr real_of_int e \<le> \<bar>x\<bar>" "\<bar>x\<bar> < 2 powr real_of_int (e + 1)" "- 1022 \<le> e"
  shows "double_exponent x = e"
proof -
  have "0 < \<bar>x\<bar>" using assms(1) by (smt (verit) powr_gt_zero)
  then have "\<lfloor>log 2 \<bar>x\<bar>\<rfloor> = e"
    using assms(1,2) by (simp add: floor_log_eq_powr_iff)
  then show ?thesis using assms(3) by (simp add: double_exponent_def)
qed

lemma round_double_scale_up:
  assumes "2 ^ 52 \<le> \<bar>x\<bar> * 2 ^ n" "\<bar>x\<bar> * 2 ^ n < 2 ^ 53" "n \<le> 1074"
  shows "round_double x = real_of_int (py_round (x * 2 ^ n)) / 2 ^ n"
proof -
  have "2 ^ 52 / (2 ^ n :: real) \<le> \<bar>x\<bar>" using assms(1) by (simp add: pos_divide_le_eq)
  then have a: "2 powr real_of_int (int 52 - int n) \<le> \<bar>x\<bar>"
    by (simp only: two_powr_diff)
  have "int 52 - int n + 1 = int 53 - int n" by simp
  then have eq: "2 powr real_of_int (int 52 - int n + 1) = 2 ^ 53 / (2 ^ n :: real)"
    by (simp only: two_powr_diff)
  have "\<bar>x\<bar> < 2 ^ 53 / (2 ^ n :: real)" using assms(2) by (simp add: pos_less_divide_eq)
  then have b: "\<bar>x\<bar> < 2 powr real_of_int (int 52 - int n + 1)"
    by (simp only: eq)
  have e: "double_exponent x = int 52 - int n"
    using a b assms(3) by (intro double_exponent_eq) simp_all
  have "int 52 - int n - 52 = int 0 - int n" by simp
  then have q: "double_quantum x = 1 / 2 ^ n"
    unfolding double_quantum_def e using two_powr_diff[of 0 n] by simp
  have "x \<noteq> 0" using assms(1) by auto
  then show ?thesis unfolding round_double_def q by simp
qed

lemma round_double_scale_down:
  assumes "2 ^ 52 \<le> \<bar>x\<bar> / 2 ^ n" "\<bar>x\<bar> / 2 ^ n < 2 ^ 53"
  shows "round_double x = real_of_int (py_round (x / 2 ^ n)) * 2 ^ n"
proof -
  have p: "2 powr real_of_int (int (52 + n)) = 2 ^ 52 * 2 ^ n"
    using two_powr_diff[of "52 + n" 0] by (simp add: power_add)
  have p1: "2 powr real_of_int (int (52 + n) + 1) = 2 ^ 53 * 2 ^ n"
    using two_powr_diff[of "53 + n" 0] by (simp add: power_add add.commute)
  have "2 ^ 52 * 2 ^ n \<le> \<bar>x\<bar>" using assms(1) by (simp add: pos_le_divide_eq)
  then have a: "2 powr real_of_int (int (52 + n)) \<le> \<bar>x\<bar>"
    by (simp only: p)
  have "\<bar>x\<bar> < 2 ^ 53 * 2 ^ n" using assms(2) by (simp add: pos_divide_less_eq)
  then have b: "\<bar>x\<bar> < 2 powr real_of_int (int (52 + n) + 1)"
    by (simp only: p1)
  have e: "double_exponent x = int (52 + n)"
    using a b by (intro double_exponent_eq) simp_all
  have "int (52 + n) - 52 = int n - int 0" by simp
  then have q: "double_quantum x = 2 ^ n"
    unfolding double_quantum_def e using two_powr_diff[of n 0] by simp
  have "x \<noteq> 0" using assms(1) by auto
  then show ?thesis unfolding round_double_def q by simp
qed

lemma double_exponent_ge: "- 1022 \<le> double_exponent x"
  by (simp add: double_exponent_def)

lemma double_quantum_pos: "0 < double_quantum x"
  by (simp add: double_quantum_def)

lemma round_double_0: "round_double 0 = 0" by (simp add: round_double_def)

lemma round_double_abs_error: "\<bar>round_double x - x\<bar> \<le> double_quantum x / 2"
proof (cases "x = 0")
  case True
  then show ?thesis using double_quantum_pos[of x] by (simp add: round_double_def)
next
  case False
  let ?q = "double_quantum x"
  let ?m = "real_of_int (py_round (x / ?q))"
  have q: "0 < ?q" by (rule double_quantum_pos)
  have "\<bar>?m - x / ?q\<bar> \<le> 1 / 2" by (rule py_round_nearest)
  then have "\<bar>?m - x / ?q\<bar> * ?q \<le> 1 / 2 * ?q"
    using q by (intro mult_right_mono) simp_all
  moreover have "\<bar>?m - x / ?q\<bar> * ?q = \<bar>(?m - x / ?q) * ?q\<bar>"
    using q by (simp add: abs_mult)
  moreover have "(?m - x / ?q) * ?q = ?m * ?q - x"
    using q by (simp add: left_diff_distrib)
  ultimately have "\<bar>?m * ?q - x\<bar> \<le> ?q / 2" by simp
  then show ?thesis using False by (simp add: round_double_def)
qed

lemma normal_exponent:
  assumes "2 powr (- 1022) \<le> \<bar>x\<bar>"
  shows "double_exponent x = \<lfloor>log 2 \<bar>x\<bar>\<rfloor>" and "2 powr real_of_int (double_exponent x) \<le> \<bar>x\<bar>"
proof -
  have pos: "0 < \<bar>x\<bar>" using assms by (smt (verit) powr_gt_zero)
  have "2 powr real_of_int (- 1022) \<le> \<bar>x\<bar>" using assms by simp
  then have "real_of_int (- 1022) \<le> log 2 \<bar>x\<bar>"
    using pos by (subst le_log_iff) simp_all
  then have "- 1022 \<le> \<lfloor>log 2 \<bar>x\<bar>\<rfloor>" by (simp only: le_floor_iff)
  then show e: "double_exponent x = \<lfloor>log 2 \<bar>x\<bar>\<rfloor>" by (simp add: double_exponent_def)
  show "2 powr real_of_int (double_exponent x) \<le> \<bar>x\<bar>"
    unfolding e using pos floor_log_eq_powr_iff[of "\<bar>x\<bar>" 2 "\<lfloor>log 2 \<bar>x\<bar>\<rfloor>"] by simp
qed

lemma quantum_exponent: "double_quantum x * 2 ^ 52 = 2 powr real_of_int (double_exponent x)"
proof -
  have "2 powr real_of_int (double_exponent x)
          = 2 powr (real_of_int (double_exponent x - 52) + 52)" by simp
  also have "\<dots> = 2 powr real_of_int (double_exponent x - 52) * 2 powr 52"
    by (rule powr_add)
  also have "(2::real) powr 52 = 2 ^ 52" by simp
  finally show ?thesis by (simp add: double_quantum_def)
qed

lemma round_double_rel_error:
  assumes "2 powr (- 1022) \<le> \<bar>x\<bar>"
  shows "\<bar>round_double x - x\<bar> \<le> \<bar>x\<bar> / 2 ^ 53"
proof -
  have "double_quantum x * 2 ^ 52 \<le> \<bar>x\<bar>"
    using normal_exponent(2)[OF assms] by (simp only: quantum_exponent)
  then have "double_quantum x / 2 \<le> \<bar>x\<bar> / 2 ^ 53" by simp
  then show ?thesis using round_double_abs_error[of x] by linarith
qed

lemma round_double_nonneg: "0 \<le> x \<Longrightarrow> 0 \<le> round_double x"
  using double_quantum_pos[of x] by (simp add: round_double_def py_round_nonneg)

lemma round_double_normal:
  assumes "2 powr (- 1022) \<le> x"
  shows "2 powr (- 1022) \<le> round_double x"
proof -
  have pos: "0 < x" using assms by (smt (verit) powr_gt_zero)
  then have ax: "\<bar>x\<bar> = x" by simp
  let ?q = "double_quantum x"
  have q: "0 < ?q" by (rule double_quantum_pos)
  have "?q * 2 ^ 52 \<le> x"
    using normal_exponent(2)[of x] assms ax by (simp only: quantum_exponent)
  then have "2 ^ 52 \<le> x / ?q" using q by (simp add: pos_le_divide_eq mult.commute)
  then have "(2 ^ 52 :: int) \<le> \<lfloor>x / ?q\<rfloor>" by (simp add: le_floor_iff)
  then have "(2 ^ 52 :: int) \<le> py_round (x / ?q)" using py_round_bounds[of "x / ?q"] by linarith
  then have "real_of_int (2 ^ 52) \<le> real_of_int (py_round (x / ?q))" by (simp only: of_int_le_iff)
  then have "2 ^ 52 * ?q \<le> real_of_int (py_round (x / ?q)) * ?q"
    using q by (intro mult_right_mono) simp_all
  then have "2 powr real_of_int (double_exponent x) \<le> round_double x"
    using pos quantum_exponent[of x] by (simp add: round_double_def mult.commute)
  moreover have "(2::real) powr (- 1022) \<le> 2 powr real_of_int (double_exponent x)"
  proof (rule powr_mono)
    have "real_of_int (- 1022) \<le> real_of_int (double_exponent x)"
      using double_exponent_ge[of x] by (simp only: of_int_le_iff)
    then show "- 1022 \<le> real_of_int (double_exponent x)" by simp
  qed simp
  ultimately show ?thesis by (rule order_trans[rotated])
qed

lemma round_double_int:
  assumes "\<bar>n\<bar> \<le> 2 ^ 53"
  shows "round_double (real_of_int n) = real_of_int n"
proof (cases "n = 0")
  case True
  then show ?thesis by (simp add: round_double_0)
next
  case False
  let ?x = "real_of_int n"
  let ?e = "double_exponent ?x"
  have n1: "1 \<le> \<bar>?x\<bar>" using False by (simp flip: of_int_abs)
  have "(2::real) powr (- 1022) \<le> 2 powr 0" by (subst powr_le_cancel_iff) simp_all
  then have norm: "2 powr (- 1022) \<le> \<bar>?x\<bar>" using n1 by simp
  have le: "2 powr real_of_int ?e \<le> \<bar>?x\<bar>" by (rule normal_exponent(2)[OF norm])
  have A: "\<bar>?x\<bar> \<le> 2 ^ 53" using assms by (metis of_int_abs of_int_le_iff of_int_numeral of_int_power)
  have B: "2 powr real_of_int 53 = (2::real) ^ 53" by simp
  have "2 powr real_of_int ?e \<le> 2 powr real_of_int 53"
    unfolding B using le A by (rule order_trans)
  then have "real_of_int ?e \<le> real_of_int 53" by (subst (asm) powr_le_cancel_iff) simp_all
  then have e53: "?e \<le> 53" by (simp only: of_int_le_iff)
  have e0: "0 \<le> \<lfloor>log 2 \<bar>?x\<bar>\<rfloor>" using n1 by simp
  then have e0': "0 \<le> ?e" unfolding normal_exponent(1)[OF norm] .
  show ?thesis
  proof (cases "?e \<le> 52")
    case True
    then obtain k where k: "?e - 52 = int 0 - int k" using e0' by (metis diff_0 diff_ge_0_iff_ge minus_diff_eq nonneg_int_cases of_nat_0)
    have q: "double_quantum ?x = 1 / 2 ^ k"
      unfolding double_quantum_def k using two_powr_diff[of 0 k] by simp
    have "?x / double_quantum ?x = real_of_int (n * 2 ^ k)" unfolding q by simp
    then have "py_round (?x / double_quantum ?x) = n * 2 ^ k"
      by (simp only: py_round_def Let_def floor_of_int) simp
    then show ?thesis using False unfolding round_double_def q by simp
  next
    case False
    then have e: "?e = 53" using e53 by simp
    have "2 powr real_of_int ?e \<le> \<bar>?x\<bar>" by (rule le)
    then have "2 ^ 53 \<le> \<bar>?x\<bar>" unfolding e by simp
    with A have ax: "\<bar>?x\<bar> = 2 ^ 53" by simp
    have q: "double_quantum ?x = 2" unfolding double_quantum_def e by simp
    from ax have "?x = 2 ^ 53 \<or> ?x = - (2 ^ 53)" by linarith
    then show ?thesis
      unfolding round_double_def q by (auto simp: py_round_def)
  qed
qed

lemma round_double_Ints:
  assumes "x \<in> \<int>" "\<bar>x\<bar> \<le> 2 ^ 53"
  shows "round_double x = x"
proof -
  from assms(1) obtain n where n: "x = real_of_int n" by (auto elim: Ints_cases)
  have "\<bar>n\<bar> \<le> 2 ^ 53" using assms(2) unfolding n
    by (metis of_int_abs of_int_le_iff of_int_numeral of_int_power)
  then show ?thesis unfolding n by (rule round_double_int)
qed

subsection \<open>Accumulated relative errors\<close>

lemma eps_pos: "0 < double_eps" and eps_lt1: "double_eps < 1"
  by (simp_all add: double_eps_def)

lemma lo_pos: "0 < 1 - double_eps" and lo_le1: "1 - double_eps \<le> 1" and hi_ge1: "1 \<le> 1 + double_eps"
  using eps_pos eps_lt1 by simp_all

lemma close_refl: "close 0 x x"
  by (simp add: close_def)

lemma close_nonneg: "0 \<le> x \<Longrightarrow> close k x y \<Longrightarrow> 0 \<le> y"
  unfolding close_def using lo_pos
  by (meson mult_nonneg_nonneg order_trans zero_le_power less_imp_le)

lemma close_zero: "close k 0 y \<Longrightarrow> y = 0"
  by (simp add: close_def)

lemma close_mono:
  assumes "close j x y" "j \<le> k" "0 \<le> x"
  shows "close k x y"
proof -
  have "(1 - double_eps) ^ k \<le> (1 - double_eps) ^ j"
    using assms(2) lo_pos lo_le1 by (intro power_decreasing) simp_all
  then have "x * (1 - double_eps) ^ k \<le> x * (1 - double_eps) ^ j"
    using assms(3) by (rule mult_left_mono)
  moreover have "(1 + double_eps) ^ j \<le> (1 + double_eps) ^ k"
    using assms(2) hi_ge1 by (intro power_increasing) simp_all
  then have "x * (1 + double_eps) ^ j \<le> x * (1 + double_eps) ^ k"
    using assms(3) by (rule mult_left_mono)
  ultimately show ?thesis using assms(1) unfolding close_def by linarith
qed

lemma close_add:
  assumes "close k a a'" "close k b b'"
  shows "close k (a + b) (a' + b')"
  using assms unfolding close_def by (simp add: distrib_right) 

lemma close_mult:
  assumes "close j a a'" "close k b b'" "0 \<le> a" "0 \<le> b"
  shows "close (j + k) (a * b) (a' * b')"
proof -
  have a': "0 \<le> a'" and b': "0 \<le> b'" using assms close_nonneg by blast+
  have l1: "0 \<le> a * (1 - double_eps) ^ j" and l2: "0 \<le> b * (1 - double_eps) ^ k"
    using assms(3,4) lo_pos by simp_all
  have "(a * (1 - double_eps) ^ j) * (b * (1 - double_eps) ^ k) \<le> a' * b'"
    using assms(1,2) l1 l2 unfolding close_def by (intro mult_mono) (use a' in simp_all)
  moreover have "a' * b' \<le> (a * (1 + double_eps) ^ j) * (b * (1 + double_eps) ^ k)"
    using assms(1,2) a' b' unfolding close_def
    by (intro mult_mono) (use assms(4) hi_ge1 in simp_all)
  ultimately show ?thesis unfolding close_def by (simp add: power_add mult_ac)
qed

lemma round_double_bounds:
  assumes "x = 0 \<or> 2 powr (- 1022) \<le> x"
  shows "x * (1 - double_eps) \<le> round_double x \<and> round_double x \<le> x * (1 + double_eps)"
proof (cases "x = 0")
  case True
  then show ?thesis by (simp add: round_double_0)
next
  case False
  then have n: "2 powr (- 1022) \<le> x" using assms by simp
  then have pos: "0 < x" by (smt (verit) powr_gt_zero)
  from n pos have "\<bar>round_double x - x\<bar> \<le> \<bar>x\<bar> / 2 ^ 53"
    by (intro round_double_rel_error) simp
  then have "\<bar>round_double x - x\<bar> \<le> x * double_eps" using pos by (simp add: double_eps_def)
  then show ?thesis by (simp add: algebra_simps abs_le_iff)
qed

lemma close_round:
  assumes "close k x y" "0 \<le> x" "y = 0 \<or> 2 powr (- 1022) \<le> y"
  shows "close (Suc k) x (round_double y)"
proof -
  have y: "0 \<le> y" using assms(1,2) by (rule close_nonneg[rotated])
  note b = round_double_bounds[OF assms(3)]
  have "x * (1 - double_eps) ^ k * (1 - double_eps) \<le> y * (1 - double_eps)"
    using assms(1) lo_pos unfolding close_def by (intro mult_right_mono) simp_all
  moreover have "y * (1 + double_eps) \<le> x * (1 + double_eps) ^ k * (1 + double_eps)"
    using assms(1) hi_ge1 unfolding close_def by (intro mult_right_mono) simp_all
  ultimately show ?thesis using b unfolding close_def by (simp add: mult_ac)
qed

lemma hi_pow_le: 
  assumes "k \<le> 2 ^ 53"
  shows "(1 + double_eps) ^ k \<le> 3"
proof -
  have "(1 + double_eps) ^ k \<le> exp double_eps ^ k"
    using eps_pos by (intro power_mono) (simp_all add: exp_ge_add_one_self)
  also have "\<dots> = exp (real k * double_eps)" by (simp add: exp_of_nat_mult)
  also have "\<dots> \<le> exp 1"
  proof -
    have "real k \<le> 2 ^ 53" using assms by (metis of_nat_le_iff of_nat_numeral of_nat_power)
    then have "real k * double_eps \<le> 1" by (simp add: double_eps_def)
    then show ?thesis by simp
  qed
  also have "\<dots> \<le> 3" by (rule exp_le)
  finally show ?thesis .
qed

lemma close_upper:
  assumes "close k x y" "0 \<le> x" "k \<le> 2 ^ 53"
  shows "y \<le> 3 * x"
proof -
  have "x * (1 + double_eps) ^ k \<le> x * 3"
    using hi_pow_le[OF assms(3)] assms(2) by (rule mult_left_mono)
  then show ?thesis using assms(1) unfolding close_def by simp
qed

lemma normal_threshold: "2 powr (- 1022) \<le> (1 / 2 ^ 1022 :: real)"
proof -
  have "(2::real) powr (- 1022) = 1 / 2 powr 1022" by (rule powr_minus_divide)
  also have "(2::real) powr 1022 = 2 ^ 1022" by simp
  finally show ?thesis by simp
qed

lemma normal_if_ge: "1 / 2 ^ 100 \<le> x \<Longrightarrow> 2 powr (- 1022) \<le> (x::real)"
proof -
  assume a: "1 / 2 ^ 100 \<le> x"
  have "(1 / 2 ^ 1022 :: real) \<le> 1 / 2 ^ 100" by simp
  with normal_threshold a show ?thesis by linarith
qed

lemma to_double_finite:
  "\<bar>round_double x\<bar> < double_limit \<Longrightarrow> to_double x = Finite (round_double x)"
  by (auto simp: to_double_def Let_def)

lemma below_limit: "0 \<le> y \<Longrightarrow> y \<le> 2 ^ 300 \<Longrightarrow> \<bar>y\<bar> < double_limit"
proof -
  assume "0 \<le> y" "y \<le> 2 ^ 300"
  moreover have "(2::real) ^ 300 < 2 ^ 1024" by simp
  ultimately show ?thesis by (simp add: double_limit_def)
qed

lemma close_below_limit:
  assumes "close k x y" "0 \<le> x" "x \<le> 2 ^ 200" "k \<le> 2 ^ 53"
  shows "\<bar>y\<bar> < double_limit"
proof -
  have "y \<le> 3 * x" using assms by (intro close_upper)
  also have "\<dots> \<le> 3 * 2 ^ 200" using assms(3) by simp
  also have "\<dots> \<le> 2 ^ 300" by simp
  finally have "y \<le> 2 ^ 300" .
  moreover have "0 \<le> y" using assms(1,2) by (rule close_nonneg[rotated])
  ultimately show ?thesis by (rule below_limit[rotated])
qed

lemma round_close:
  assumes "close k x y" "0 \<le> x" "x \<le> 2 ^ 200" "Suc k \<le> 2 ^ 53"
    and n: "y = 0 \<or> 2 powr (- 1022) \<le> y"
  shows "to_double y = Finite (round_double y)"
    and "close (Suc k) x (round_double y)"
    and "round_double y = 0 \<or> 2 powr (- 1022) \<le> round_double y"
proof -
  show c: "close (Suc k) x (round_double y)" using assms(1,2) n by (rule close_round)
  then have "\<bar>round_double y\<bar> < double_limit"
    using assms(2,3,4) by (rule close_below_limit)
  then show "to_double y = Finite (round_double y)" by (rule to_double_finite)
  show "round_double y = 0 \<or> 2 powr (- 1022) \<le> round_double y"
    using n round_double_normal round_double_0 by metis
qed

lemma close_lower_half:
  assumes "close k x y" "0 \<le> x" "k \<le> 2 ^ 52"
  shows "x / 2 \<le> y"
proof -
  have "1 - real k * double_eps \<le> (1 - double_eps) ^ k"
    using Bernoulli_inequality[of "- double_eps" k] eps_lt1 by simp
  moreover have "real k \<le> 2 ^ 52" using assms(3) by (metis of_nat_le_iff of_nat_numeral of_nat_power)
  then have "real k * double_eps \<le> 1 / 2" by (simp add: double_eps_def)
  ultimately have "1 / 2 \<le> (1 - double_eps) ^ k" by linarith
  then have "x * (1 / 2) \<le> x * (1 - double_eps) ^ k" using assms(2) by (rule mult_left_mono)
  then show ?thesis using assms(1) unfolding close_def by simp
qed

lemma int_true_div_close:
  assumes "0 \<le> a" "a < 2 ^ 63" "0 < b" "b \<le> 2 ^ 64"
  shows "\<exists>r. int_true_div a b = Inr (Finite r) \<and> close 1 (real_of_int a / real_of_int b) r
           \<and> (r = 0 \<or> 1 / 2 ^ 65 \<le> r)"
proof -
  let ?x = "real_of_int a / real_of_int b"
  have x0: "0 \<le> ?x" using assms(1,3) by simp
  have b1: "1 \<le> real_of_int b" using assms(3) by simp
  have "real_of_int a \<le> 2 ^ 63" using assms(2) by (metis less_imp_le of_int_le_iff of_int_numeral of_int_power)
  then have "?x \<le> 2 ^ 63" using b1 assms(1)
    by (metis divide_le_eq_1_pos div_by_1 frac_le of_int_0_le_iff order_trans zero_less_one)
  then have xu: "?x \<le> 2 ^ 200" by (rule order_trans) simp
  have xl: "?x = 0 \<or> 1 / 2 ^ 64 \<le> ?x"
  proof (cases "a = 0")
    case True then show ?thesis by simp
  next
    case False
    then have "1 \<le> real_of_int a" using assms(1) by simp
    moreover have "real_of_int b \<le> 2 ^ 64" using assms(4) by (metis of_int_le_iff of_int_numeral of_int_power)
    ultimately have "1 / 2 ^ 64 \<le> ?x" using b1 by (intro frac_le) simp_all
    then show ?thesis by simp
  qed
  then have xl': "?x = 0 \<or> 1 / 2 ^ 100 \<le> ?x"
  proof
    assume "?x = 0" then show ?thesis by simp
  next
    assume "1 / 2 ^ 64 \<le> ?x"
    moreover have "(1 / 2 ^ 100 :: real) \<le> 1 / 2 ^ 64" by simp
    ultimately show ?thesis by linarith
  qed
  have xn: "?x = 0 \<or> 2 powr (- 1022) \<le> ?x" using xl' normal_if_ge by blast
  note r = round_close[OF close_refl x0 xu _ xn]
  have fin: "to_double ?x = Finite (round_double ?x)" by (rule r(1)) simp
  have cl: "close 1 ?x (round_double ?x)" using r(2) by simp
  have lim: "\<bar>round_double ?x\<bar> < double_limit"
    using cl x0 xu by (rule close_below_limit) simp
  have low: "round_double ?x = 0 \<or> 1 / 2 ^ 65 \<le> round_double ?x"
  proof (cases "?x = 0")
    case True
    then have "round_double ?x = round_double 0" by (rule arg_cong)
    then show ?thesis by (simp only: round_double_0) simp
  next
    case False
    then have "1 / 2 ^ 64 \<le> ?x" using xl by blast
    then have "(1 / 2 ^ 64) / 2 \<le> ?x / 2" by (rule divide_right_mono) simp
    moreover have "?x / 2 \<le> round_double ?x" using cl x0 by (rule close_lower_half) simp
    ultimately have "(1 / 2 ^ 64) / 2 \<le> round_double ?x" by (rule order_trans)
    moreover have "(1 / 2 ^ 64) / 2 = (1 / 2 ^ 65 :: real)" by simp
    ultimately show ?thesis by (simp only:) simp
  qed
  show ?thesis
    using lim cl low assms(3) by (simp add: int_true_div_def Let_def)
qed

lemma int_to_double_close:
  assumes "1 \<le> n" "n \<le> 2 ^ 64"
  shows "\<exists>m. int_to_double n = Inr (Finite m) \<and> close 1 (real_of_int n) m \<and> 1 / 2 \<le> m"
proof -
  let ?x = "real_of_int n"
  have x1: "1 \<le> ?x" using assms(1) by simp
  then have x0: "0 \<le> ?x" by simp
  have "?x \<le> 2 ^ 64" using assms(2) by (metis of_int_le_iff of_int_numeral of_int_power)
  then have xu: "?x \<le> 2 ^ 200" by (rule order_trans) simp
  have "(1 / 2 ^ 100 :: real) \<le> 1" by simp
  then have xl: "?x = 0 \<or> 1 / 2 ^ 100 \<le> ?x" using x1 by linarith
  have xn: "?x = 0 \<or> 2 powr (- 1022) \<le> ?x" using xl normal_if_ge by blast
  note r = round_close[OF close_refl x0 xu _ xn]
  have cl: "close 1 ?x (round_double ?x)" using r(2) by simp
  have lim: "\<bar>round_double ?x\<bar> < double_limit"
    using cl x0 xu by (rule close_below_limit) simp
  have "?x / 2 \<le> round_double ?x" using cl x0 by (rule close_lower_half) simp
  moreover have "1 / 2 \<le> ?x / 2" using x1 by (intro divide_right_mono) simp_all
  ultimately have "1 / 2 \<le> round_double ?x" by (rule order_trans[rotated])
  then show ?thesis using lim cl by (simp add: int_to_double_def Let_def)
qed

lemma double_mul_close:
  assumes "close 1 r r'" "0 \<le> r" "r \<le> 2 ^ 63" "r' = 0 \<or> 1 / 2 ^ 65 \<le> r'"
    and "close 1 n n'" "1 \<le> n" "n \<le> 2 ^ 64" "1 / 2 \<le> n'"
  shows "\<exists>p. double_mul (Finite r') (Finite n') = Finite p \<and> close 3 (r * n) p
           \<and> (p = 0 \<or> 2 powr (- 1022) \<le> p)"
proof -
  have n0: "0 \<le> n" using assms(6) by simp
  have c2: "close 2 (r * n) (r' * n')"
    using close_mult[OF assms(1) assms(5) assms(2) n0] by (simp add: numeral_2_eq_2)
  have x0: "0 \<le> r * n" using assms(2) n0 by simp
  have "r * n \<le> 2 ^ 63 * 2 ^ 64" using assms(2,3,7) n0 by (intro mult_mono) simp_all
  then have xu: "r * n \<le> 2 ^ 200" by (rule order_trans) simp
  have yn: "r' * n' = 0 \<or> 2 powr (- 1022) \<le> r' * n'"
  proof (cases "r' = 0")
    case True then show ?thesis by simp
  next
    case False
    then have "1 / 2 ^ 65 \<le> r'" using assms(4) by simp
    then have "(1 / 2 ^ 65) * (1 / 2) \<le> r' * n'"
      using assms(8) by (intro mult_mono) simp_all
    moreover have "(1 / 2 ^ 100 :: real) \<le> (1 / 2 ^ 65) * (1 / 2)" by simp
    ultimately have "1 / 2 ^ 100 \<le> r' * n'" by (rule order_trans[rotated])
    then show ?thesis using normal_if_ge by blast
  qed
  note r = round_close[OF c2 x0 xu _ yn]
  have "to_double (r' * n') = Finite (round_double (r' * n'))" by (rule r(1)) simp
  moreover have "close 3 (r * n) (round_double (r' * n'))"
    using r(2) by (simp add: numeral_3_eq_3)
  moreover have "round_double (r' * n') = 0 \<or> 2 powr (- 1022) \<le> round_double (r' * n')"
    by (rule r(3)) simp
  ultimately show ?thesis by simp
qed

lemma double_add_close:
  assumes "close k A Ad" "close 3 c p" "3 \<le> k" "0 \<le> A" "0 \<le> c" "A + c \<le> 2 ^ 200"
    and "Suc k \<le> 2 ^ 52"
    and "Ad = 0 \<or> 2 powr (- 1022) \<le> Ad" "p = 0 \<or> 2 powr (- 1022) \<le> p"
  shows "\<exists>t. double_add (Finite Ad) (Finite p) = Finite t \<and> close (Suc k) (A + c) t
           \<and> (t = 0 \<or> 2 powr (- 1022) \<le> t)"
proof -
  have ck: "close k c p" using assms(2,3,5) by (rule close_mono)
  have c: "close k (A + c) (Ad + p)" using assms(1) ck by (rule close_add)
  have x0: "0 \<le> A + c" using assms(4,5) by simp
  have Ad0: "0 \<le> Ad" using assms(4,1) by (rule close_nonneg)
  have p0: "0 \<le> p" using assms(5,2) by (rule close_nonneg)
  have yn: "Ad + p = 0 \<or> 2 powr (- 1022) \<le> Ad + p"
    using assms(8,9) Ad0 p0 by (smt (verit))
  have k53: "Suc k \<le> 2 ^ 53"
  proof -
    have "(2::nat) ^ 52 \<le> 2 ^ 53" by simp
    with assms(7) show ?thesis by (rule order_trans)
  qed
  note r = round_close[OF c x0 assms(6) k53 yn]
  show ?thesis using r by simp
qed

subsection \<open>Evaluation of the float operations\<close>

text \<open>
  The double nearest to \<open>x\<close> is \<open>m / 2 ^ n\<close> when \<open>2 ^ 52 \<le> \<bar>x\<bar> * 2 ^ n < 2 ^ 53\<close> and \<open>m\<close> is
  \<open>x * 2 ^ n\<close> rounded to an integer.
\<close>

lemma round_double_up:
  assumes "2 ^ 52 \<le> \<bar>x\<bar> * 2 ^ n" "\<bar>x\<bar> * 2 ^ n < 2 ^ 53" "n \<le> 1074" "py_round (x * 2 ^ n) = m"
  shows "round_double x = real_of_int m / 2 ^ n" "\<bar>round_double x\<bar> < double_limit"
proof -
  show e: "round_double x = real_of_int m / 2 ^ n"
    using round_double_scale_up[OF assms(1-3)] assms(4) by simp
  have "\<bar>real_of_int m - x * 2 ^ n\<bar> \<le> 1 / 2" using py_round_nearest[of "x * 2 ^ n"] assms(4) by simp
  then have "\<bar>real_of_int m\<bar> \<le> \<bar>x * 2 ^ n\<bar> + 1 / 2" by linarith
  also have "\<bar>x * 2 ^ n\<bar> = \<bar>x\<bar> * 2 ^ n" by (simp add: abs_mult)
  finally have "\<bar>real_of_int m\<bar> \<le> 2 ^ 53 + 1 / 2" using assms(2) by linarith
  moreover have "\<bar>real_of_int m / 2 ^ n\<bar> \<le> \<bar>real_of_int m\<bar>"
  proof -
    have "(1::real) \<le> 2 ^ n" by simp
    then have "\<bar>real_of_int m\<bar> / 2 ^ n \<le> \<bar>real_of_int m\<bar> / 1"
      by (intro divide_left_mono) simp_all
    then show ?thesis by (simp add: abs_divide)
  qed
  moreover have "(2 ^ 53 + 1 / 2 :: real) < 2 ^ 1024" by simp
  ultimately show "\<bar>round_double x\<bar> < double_limit" unfolding e double_limit_def by linarith
qed

lemma to_double_up:
  assumes "2 ^ 52 \<le> \<bar>x\<bar> * 2 ^ n" "\<bar>x\<bar> * 2 ^ n < 2 ^ 53" "n \<le> 1074" "py_round (x * 2 ^ n) = m"
  shows "to_double x = Finite (real_of_int m / 2 ^ n)"
  using round_double_up[OF assms] by (simp add: to_double_finite)

lemma to_double_0: "to_double 0 = Finite 0"
  by (simp add: to_double_def round_double_0 double_limit_def)

lemma to_double_Ints:
  assumes "x \<in> \<int>" "\<bar>x\<bar> \<le> 2 ^ 53"
  shows "to_double x = Finite x"
proof -
  from assms(1) obtain n where n: "x = real_of_int n" by (auto elim: Ints_cases)
  have "\<bar>n\<bar> \<le> 2 ^ 53" using assms(2) unfolding n
    by (metis of_int_abs of_int_le_iff of_int_numeral of_int_power)
  then have r: "round_double x = x" unfolding n by (rule round_double_int)
  have "(2 ^ 53 :: real) < 2 ^ 1024" by simp
  then have "\<bar>x\<bar> < double_limit" using assms(2) unfolding double_limit_def by linarith
  then show ?thesis using r by (simp add: to_double_finite)
qed

lemma int_true_div_up:
  assumes "b \<noteq> 0"
    and "2 ^ 52 \<le> \<bar>real_of_int a / real_of_int b\<bar> * 2 ^ n"
    and "\<bar>real_of_int a / real_of_int b\<bar> * 2 ^ n < 2 ^ 53" and "n \<le> 1074"
    and "py_round (real_of_int a / real_of_int b * 2 ^ n) = m"
  shows "int_true_div a b = Inr (Finite (real_of_int m / 2 ^ n))"
  using round_double_up[OF assms(2-5)] assms(1) by (simp add: int_true_div_def Let_def)

lemma int_to_double_exact: "\<bar>n\<bar> \<le> 2 ^ 53 \<Longrightarrow> int_to_double n = Inr (Finite (real_of_int n))"
proof -
  assume a: "\<bar>n\<bar> \<le> 2 ^ 53"
  then have "\<bar>real_of_int n\<bar> \<le> 2 ^ 53" by (metis of_int_abs of_int_le_iff of_int_numeral of_int_power)
  moreover have "(2 ^ 53 :: real) < 2 ^ 1024" by simp
  ultimately have "\<bar>real_of_int n\<bar> < double_limit" unfolding double_limit_def by linarith
  then show ?thesis using round_double_int[OF a] by (simp add: int_to_double_def Let_def)
qed

lemma double_mul_up:
  assumes "2 ^ 52 \<le> \<bar>a * b\<bar> * 2 ^ n" "\<bar>a * b\<bar> * 2 ^ n < 2 ^ 53" "n \<le> 1074"
    and "py_round (a * b * 2 ^ n) = m"
  shows "double_mul (Finite a) (Finite b) = Finite (real_of_int m / 2 ^ n)"
  using round_double_up[OF assms] by (simp add: to_double_finite)

lemma double_add_up:
  assumes "2 ^ 52 \<le> \<bar>a + b\<bar> * 2 ^ n" "\<bar>a + b\<bar> * 2 ^ n < 2 ^ 53" "n \<le> 1074"
    and "py_round ((a + b) * 2 ^ n) = m"
  shows "double_add (Finite a) (Finite b) = Finite (real_of_int m / 2 ^ n)"
  using round_double_up[OF assms] by (simp add: to_double_finite)

lemma double_add_zero: "double_add (Finite 0) (Finite b) = to_double b"
  by simp

lemma double_sub_up:
  assumes "2 ^ 52 \<le> \<bar>a - b\<bar> * 2 ^ n" "\<bar>a - b\<bar> * 2 ^ n < 2 ^ 53" "n \<le> 1074"
    and "py_round ((a - b) * 2 ^ n) = m"
  shows "double_sub (Finite a) (Finite b) = Finite (real_of_int m / 2 ^ n)"
  using round_double_up[OF assms] by (simp add: to_double_finite double_sub_def)

lemma double_div_up:
  assumes "b \<noteq> 0"
    and "2 ^ 52 \<le> \<bar>a / b\<bar> * 2 ^ n" "\<bar>a / b\<bar> * 2 ^ n < 2 ^ 53" "n \<le> 1074"
    and "py_round (a / b * 2 ^ n) = m"
  shows "double_div (Finite a) (Finite b) = Inr (Finite (real_of_int m / 2 ^ n))"
  using round_double_up[OF assms(2-5)] assms(1) by (simp add: to_double_finite)

lemma double_div_positive: "double_gt_zero p \<Longrightarrow> \<exists>q. double_div a p = Inr q"
  by (cases p; cases a) auto

lemma double_tenth_value: "double_tenth = Finite (real_of_int 7205759403792794 / 2 ^ 56)"
  unfolding double_tenth_def by (rule to_double_up) (simp_all add: py_round_def)

lemma double_fifth_value: "double_fifth = Finite (real_of_int 7205759403792794 / 2 ^ 55)"
  unfolding double_fifth_def by (rule to_double_up) (simp_all add: py_round_def)

lemma double_three_tenths_value: "double_three_tenths = Finite (real_of_int 5404319552844595 / 2 ^ 54)"
  unfolding double_three_tenths_def by (rule to_double_up) (simp_all add: py_round_def)

section \<open>Properties of the vesting projector\<close>


lemma spec_rate_nonneg:
  "sched_start v < sched_end v \<Longrightarrow> 0 \<le> sched_total v \<Longrightarrow> 0 \<le> spec_rate v"
  by (simp add: spec_rate_def)

lemma spec_contribution_nonneg:
  assumes "sched_start v < sched_end v" "0 \<le> sched_total v"
  shows "0 \<le> spec_contribution now_ts t v"
proof (cases "min t (sched_end v) > now_ts")
  case True
  have "0 \<le> real_of_int (min t (sched_end v) - now_ts)" using True by simp
  with spec_rate_nonneg[OF assms] show ?thesis
    unfolding spec_contribution_def if_P[OF True] by (rule mult_nonneg_nonneg)
next
  case False
  show ?thesis unfolding spec_contribution_def if_not_P[OF False] by simp
qed



lemma in_range_contribution:
  assumes "schedule_in_range v" "- (2 ^ 63) \<le> now_ts"
  shows "0 \<le> spec_contribution now_ts target_ts v"
    and "spec_contribution now_ts target_ts v \<le> 2 ^ 127"
proof -
  have wf: "sched_start v < sched_end v" "0 \<le> sched_total v"
    using assms(1) by (simp_all add: schedule_in_range_def)
  show "0 \<le> spec_contribution now_ts target_ts v" by (rule spec_contribution_nonneg[OF wf])
  show "spec_contribution now_ts target_ts v \<le> 2 ^ 127"
  proof (cases "min target_ts (sched_end v) > now_ts")
    case False
    then show ?thesis unfolding spec_contribution_def if_not_P[OF False] by simp
  next
    case True
    let ?n = "min target_ts (sched_end v) - now_ts"
    have "?n \<le> 2 ^ 64" using assms by (auto simp: schedule_in_range_def min_def)
    then have n: "real_of_int ?n \<le> 2 ^ 64" by (metis of_int_le_iff of_int_numeral of_int_power)
    have n0: "0 \<le> real_of_int ?n" using True by simp
    have d1: "1 \<le> real_of_int (sched_end v - sched_start v)" using wf(1) by simp
    have "real_of_int (sched_total v) \<le> 2 ^ 63"
      using assms(1) unfolding schedule_in_range_def
      by (metis less_imp_le of_int_le_iff of_int_numeral of_int_power)
    then have "spec_rate v \<le> 2 ^ 63 / 1" unfolding spec_rate_def
      using d1 wf(2) by (intro frac_le) simp_all
    then have r: "spec_rate v \<le> 2 ^ 63" by simp
    have "spec_rate v * real_of_int ?n \<le> 2 ^ 63 * 2 ^ 64"
      using r n n0 spec_rate_nonneg[OF wf] by (intro mult_mono) simp_all
    then show ?thesis unfolding spec_contribution_def if_P[OF True] by simp
  qed
qed

lemma vesting_loop_double_close:
  assumes "\<forall>v\<in>set vs. schedule_in_range v" "- (2 ^ 63) \<le> now_ts"
    and "close k A Ad" "0 \<le> A" "Ad = 0 \<or> 2 powr (- 1022) \<le> Ad" "3 \<le> k"
    and "k + length vs \<le> 2 ^ 52"
    and "A + real (length vs) * 2 ^ 127 \<le> 2 ^ 200"
  shows "\<exists>D. vesting_loop_double now_ts target_ts vs (Finite Ad) = Inr (Finite D)
           \<and> close (k + length vs) (A + (\<Sum>v\<leftarrow>vs. spec_contribution now_ts target_ts v)) D"
  using assms(1,3-)
proof (induction vs arbitrary: k A Ad)
  case Nil
  then show ?case by simp
next
  case (Cons v vs)
  have rng: "schedule_in_range v" and rest: "\<forall>v\<in>set vs. schedule_in_range v"
    using Cons.prems(1) by simp_all
  have wf: "sched_start v < sched_end v" "0 \<le> sched_total v" "sched_total v < 2 ^ 63"
    "- (2 ^ 63) \<le> sched_start v" "sched_end v < 2 ^ 63"
    using rng by (simp_all add: schedule_in_range_def)
  let ?dur = "sched_end v - sched_start v"
  let ?c = "spec_contribution now_ts target_ts v"
  have c0: "0 \<le> ?c" and cu: "?c \<le> 2 ^ 127"
    using in_range_contribution[OF rng assms(2)] by simp_all
  have dur: "0 < ?dur" "?dur \<le> 2 ^ 64" using wf by simp_all
  obtain r where r: "int_true_div (sched_total v) ?dur = Inr (Finite r)"
    "close 1 (spec_rate v) r" "r = 0 \<or> 1 / 2 ^ 65 \<le> r"
    using int_true_div_close[OF wf(2,3) dur] unfolding spec_rate_def by blast
  have k': "3 \<le> Suc k" using Cons.prems(5) by simp
  have len: "Suc k + length vs \<le> 2 ^ 52" using Cons.prems(6) by simp
  have Sk: "Suc k \<le> 2 ^ 52" using len by simp
  have mass: "A + 2 ^ 127 + real (length vs) * 2 ^ 127 \<le> 2 ^ 200"
    using Cons.prems(7) by (simp add: algebra_simps)
  show ?case
  proof (cases "min target_ts (sched_end v) > now_ts")
    case False
    have cz: "?c = 0" unfolding spec_contribution_def if_not_P[OF False] by simp
    have cl: "close (Suc k) A Ad" using Cons.prems(2) _ Cons.prems(3) by (rule close_mono) simp
    have m: "A + real (length vs) * 2 ^ 127 \<le> 2 ^ 200" using mass by simp
    from Cons.IH[OF rest cl Cons.prems(3) Cons.prems(4) k' len m]
    obtain D where "vesting_loop_double now_ts target_ts vs (Finite Ad) = Inr (Finite D)"
      "close (Suc k + length vs) (A + (\<Sum>v\<leftarrow>vs. spec_contribution now_ts target_ts v)) D"
      by blast
    moreover have "vesting_loop_double now_ts target_ts (v # vs) (Finite Ad)
                     = vesting_loop_double now_ts target_ts vs (Finite Ad)"
      by (simp only: vesting_loop_double.simps r(1) sum.case Let_def if_not_P[OF False])
    ultimately show ?thesis using cz by simp
  next
    case True
    let ?n = "min target_ts (sched_end v) - now_ts"
    have n: "1 \<le> ?n" "?n \<le> 2 ^ 64" using True wf(5) assms(2) by (auto simp: min_def)
    obtain m where m: "int_to_double ?n = Inr (Finite m)" "close 1 (real_of_int ?n) m" "1 / 2 \<le> m"
      using int_to_double_close[OF n] by blast
    have ceq: "?c = spec_rate v * real_of_int ?n"
      unfolding spec_contribution_def if_P[OF True] ..
    have ru: "spec_rate v \<le> 2 ^ 63"
    proof -
      have "real_of_int (sched_total v) \<le> 2 ^ 63"
        using wf(3) by (metis less_imp_le of_int_le_iff of_int_numeral of_int_power)
      moreover have "1 \<le> real_of_int ?dur" using dur(1) by simp
      ultimately have "spec_rate v \<le> 2 ^ 63 / 1" unfolding spec_rate_def
        using wf(2) by (intro frac_le) simp_all
      then show ?thesis by simp
    qed
    have rn: "1 \<le> real_of_int ?n" "real_of_int ?n \<le> 2 ^ 64"
      using n by (simp, metis of_int_le_iff of_int_numeral of_int_power)
    obtain p where p: "double_mul (Finite r) (Finite m) = Finite p" "close 3 ?c p"
      "p = 0 \<or> 2 powr (- 1022) \<le> p"
      using double_mul_close[OF r(2) spec_rate_nonneg[OF wf(1,2)] ru r(3) m(2) rn m(3)]
      unfolding ceq by blast
    have Ac: "A + ?c \<le> 2 ^ 200"
    proof -
      have "0 \<le> real (length vs) * 2 ^ 127" by simp
      with mass cu show ?thesis by linarith
    qed
    obtain t where t: "double_add (Finite Ad) (Finite p) = Finite t" "close (Suc k) (A + ?c) t"
      "t = 0 \<or> 2 powr (- 1022) \<le> t"
      using double_add_close[OF Cons.prems(2) p(2) Cons.prems(5) Cons.prems(3) c0 Ac Sk
          Cons.prems(4) p(3)] by blast
    have Ac0: "0 \<le> A + ?c" using Cons.prems(3) c0 by simp
    have m': "A + ?c + real (length vs) * 2 ^ 127 \<le> 2 ^ 200" using mass cu by linarith
    from Cons.IH[OF rest t(2) Ac0 t(3) k' len m']
    obtain D where "vesting_loop_double now_ts target_ts vs (Finite t) = Inr (Finite D)"
      "close (Suc k + length vs)
         (A + ?c + (\<Sum>v\<leftarrow>vs. spec_contribution now_ts target_ts v)) D"
      by blast
    moreover have "vesting_loop_double now_ts target_ts (v # vs) (Finite Ad)
                     = vesting_loop_double now_ts target_ts vs (Finite t)"
      by (simp only: vesting_loop_double.simps r(1) sum.case Let_def if_P[OF True] m(1) p(1) t(1))
    ultimately show ?thesis by (simp add: add.assoc)
  qed
qed

lemma close_start: "close 3 0 0" by (simp add: close_def)

lemma vesting_projection_double_bounds:
  assumes "\<forall>v\<in>set schedules. schedule_in_range v" and "- (2 ^ 63) \<le> now_ts"
    and "length schedules \<le> 2 ^ 32"
  shows "\<exists>D. vesting_loop_double now_ts target_ts schedules (Finite 0) = Inr (Finite D)
           \<and> calculate_vesting_projection_double now_ts target_ts schedules = Inr (py_round D)
           \<and> (\<Sum>v\<leftarrow>schedules. spec_contribution now_ts target_ts v)
                * (1 - 1 / 2 ^ 53) ^ (length schedules + 3) \<le> D
           \<and> D \<le> (\<Sum>v\<leftarrow>schedules. spec_contribution now_ts target_ts v)
                * (1 + 1 / 2 ^ 53) ^ (length schedules + 3)
           \<and> \<bar>real_of_int (py_round D) - D\<bar> \<le> 1 / 2"
proof -
  have len: "real (length schedules) \<le> 2 ^ 32"
    using assms(3) by (metis of_nat_le_iff of_nat_numeral of_nat_power)
  have k: "3 + length schedules \<le> 2 ^ 52"
  proof -
    have "(3::nat) + 2 ^ 32 \<le> 2 ^ 52" by simp
    with assms(3) show ?thesis by linarith
  qed
  have "real (length schedules) * 2 ^ 127 \<le> 2 ^ 32 * 2 ^ 127"
    using len by (intro mult_right_mono) simp_all
  also have "\<dots> \<le> (2 ^ 200 :: real)" by simp
  finally have m: "0 + real (length schedules) * 2 ^ 127 \<le> 2 ^ 200" by simp
  obtain D where D: "vesting_loop_double now_ts target_ts schedules (Finite 0) = Inr (Finite D)"
    "close (3 + length schedules)
       (0 + (\<Sum>v\<leftarrow>schedules. spec_contribution now_ts target_ts v)) D"
    using vesting_loop_double_close[OF assms(1,2) close_start _ _ _ k m, of target_ts] by auto
  have "calculate_vesting_projection_double now_ts target_ts schedules = Inr (py_round D)"
    by (simp add: calculate_vesting_projection_double_def D(1))
  then show ?thesis
    using D py_round_nearest[of D] by (auto simp: close_def double_eps_def add.commute)
qed

lemma vesting_loop_double_step:
  assumes "int_true_div (sched_total v) (sched_end v - sched_start v) = Inr rate"
    and "now_ts < min target_ts (sched_end v)"
    and "int_to_double (min target_ts (sched_end v) - now_ts) = Inr n"
    and "double_add tot (double_mul rate n) = tot'"
  shows "vesting_loop_double now_ts target_ts (v # vs) tot
           = vesting_loop_double now_ts target_ts vs tot'"
  by (simp only: vesting_loop_double.simps assms(1,3,4) sum.case Let_def if_P[OF assms(2)])

lemma vesting_loop_double_skip:
  assumes "int_true_div (sched_total v) (sched_end v - sched_start v) = Inr rate"
    and "\<not> now_ts < min target_ts (sched_end v)"
  shows "vesting_loop_double now_ts target_ts (v # vs) tot
           = vesting_loop_double now_ts target_ts vs tot"
  by (simp only: vesting_loop_double.simps assms(1) sum.case Let_def if_not_P[OF assms(2)])

lemma example_projection:
  "calculate_vesting_projection_double 50 100
     [\<lparr>sched_name = ''Example'', sched_start = 0, sched_end = 100, sched_total = 100\<rparr>] = Inr 50"
  by (simp add: calculate_vesting_projection_double_def int_true_div_def int_to_double_def
        round_double_Ints to_double_Ints double_limit_def py_round_def Let_def)

text \<open>
  The projection of \<^const>\<open>late_grant\<close> from 2026-04-20 17:10:49 UTC to 2030-01-01, and the
  projection of the repository's table from 2026-03-14 09:16:00 UTC to 2026-03-30.
\<close>

lemma late_grant_projection:
  "calculate_vesting_projection_double 1776705049 1893456000
     [\<lparr>sched_name = ''Grant'', sched_start = 1760434200, sched_end = 1886578200, sched_total = 64772351\<rparr>] = Inr 56417604"
proof -
  have r0: "int_true_div 64772351 126144000 = Inr (Finite (real_of_int 4625011666468654 / 2 ^ 53))"
    by (rule int_true_div_up) (simp_all add: py_round_def)
  have n0: "int_to_double 109873151 = Inr (Finite (real_of_int 109873151))"
    by (rule int_to_double_exact) simp
  have p0: "double_mul (Finite (real_of_int 4625011666468654 / 2 ^ 53)) (Finite (real_of_int 109873151)) = Finite (real_of_int 7572242695192576 / 2 ^ 27)"
    by (rule double_mul_up) (simp_all add: py_round_def)
  have t0: "double_add (Finite 0) (Finite (real_of_int 7572242695192576 / 2 ^ 27)) = Finite (real_of_int 7572242695192576 / 2 ^ 27)"
    by (rule double_add_up) (simp_all add: py_round_def)
  have s0: "vesting_loop_double 1776705049 1893456000 (\<lparr>sched_name = ''Grant'', sched_start = 1760434200, sched_end = 1886578200, sched_total = 64772351\<rparr> # []) (Finite 0)
      = vesting_loop_double 1776705049 1893456000 [] (Finite (real_of_int 7572242695192576 / 2 ^ 27))"
    apply (rule vesting_loop_double_step[where rate = "Finite (real_of_int 4625011666468654 / 2 ^ 53)" and n = "Finite (real_of_int 109873151)"])
    subgoal using r0 by simp
    subgoal by simp
    subgoal using n0 by simp
    subgoal by (simp only: p0 t0)
    done
  have "vesting_loop_double 1776705049 1893456000
     [\<lparr>sched_name = ''Grant'', sched_start = 1760434200, sched_end = 1886578200, sched_total = 64772351\<rparr>] (Finite 0) = Inr (Finite (real_of_int 7572242695192576 / 2 ^ 27))"
    by (simp only: s0 vesting_loop_double.simps(1))
  then show ?thesis
    unfolding calculate_vesting_projection_double_def by (simp add: py_round_def)
qed

lemma repository_projection:
  "calculate_vesting_projection_double 1773479760 1774828800
     [\<lparr>sched_name = ''Vesting Contract'', sched_start = 1760434200, sched_end = 1823506200, sched_total = 14605000\<rparr>,
     \<lparr>sched_name = ''Operational 1'', sched_start = 1760434200, sched_end = 1886578200, sched_total = 4020000\<rparr>,
     \<lparr>sched_name = ''Operational 2'', sched_start = 1760434200, sched_end = 1774690200, sched_total = 1230000\<rparr>,
     \<lparr>sched_name = ''Operational 3'', sched_start = 1760434200, sched_end = 1773394200, sched_total = 1750000\<rparr>] = Inr 459813"
proof -
  have r0: "int_true_div 14605000 63072000 = Inr (Finite (real_of_int 8342855474092605 / 2 ^ 55))"
    by (rule int_true_div_up) (simp_all add: py_round_def)
  have n0: "int_to_double 1349040 = Inr (Finite (real_of_int 1349040))"
    by (rule int_to_double_exact) simp
  have p0: "double_mul (Finite (real_of_int 8342855474092605 / 2 ^ 55)) (Finite (real_of_int 1349040)) = Finite (real_of_int 5366728662857956 / 2 ^ 34)"
    by (rule double_mul_up) (simp_all add: py_round_def)
  have t0: "double_add (Finite 0) (Finite (real_of_int 5366728662857956 / 2 ^ 34)) = Finite (real_of_int 5366728662857956 / 2 ^ 34)"
    by (rule double_add_up) (simp_all add: py_round_def)
  have r1: "int_true_div 4020000 126144000 = Inr (Finite (real_of_int 4592711948764433 / 2 ^ 57))"
    by (rule int_true_div_up) (simp_all add: py_round_def)
  have n1: "int_to_double 1349040 = Inr (Finite (real_of_int 1349040))"
    by (rule int_to_double_exact) simp
  have p1: "double_mul (Finite (real_of_int 4592711948764433 / 2 ^ 57)) (Finite (real_of_int 1349040)) = Finite (real_of_int 5908729674683734 / 2 ^ 37)"
    by (rule double_mul_up) (simp_all add: py_round_def)
  have t1: "double_add (Finite (real_of_int 5366728662857956 / 2 ^ 34)) (Finite (real_of_int 5908729674683734 / 2 ^ 37)) = Finite (real_of_int 6105319872193423 / 2 ^ 34)"
    by (rule double_add_up) (simp_all add: py_round_def)
  have r2: "int_true_div 1230000 14256000 = Inr (Finite (real_of_int 6217090394686543 / 2 ^ 56))"
    by (rule int_true_div_up) (simp_all add: py_round_def)
  have n2: "int_to_double 1210440 = Inr (Finite (real_of_int 1210440))"
    by (rule int_to_double_exact) simp
  have p2: "double_mul (Finite (real_of_int 6217090394686543 / 2 ^ 56)) (Finite (real_of_int 1210440)) = Finite (real_of_int 7176794907898311 / 2 ^ 36)"
    by (rule double_mul_up) (simp_all add: py_round_def)
  have t2: "double_add (Finite (real_of_int 6105319872193423 / 2 ^ 34)) (Finite (real_of_int 7176794907898311 / 2 ^ 36)) = Finite (real_of_int 7899518599168001 / 2 ^ 34)"
    by (rule double_add_up) (simp_all add: py_round_def)
  have r3: "int_true_div 1750000 12960000 = Inr (Finite (real_of_int 4864999597468128 / 2 ^ 55))"
    by (rule int_true_div_up) (simp_all add: py_round_def)
  have s0: "vesting_loop_double 1773479760 1774828800 (\<lparr>sched_name = ''Vesting Contract'', sched_start = 1760434200, sched_end = 1823506200, sched_total = 14605000\<rparr> # [\<lparr>sched_name = ''Operational 1'', sched_start = 1760434200, sched_end = 1886578200, sched_total = 4020000\<rparr>, \<lparr>sched_name = ''Operational 2'', sched_start = 1760434200, sched_end = 1774690200, sched_total = 1230000\<rparr>, \<lparr>sched_name = ''Operational 3'', sched_start = 1760434200, sched_end = 1773394200, sched_total = 1750000\<rparr>]) (Finite 0)
      = vesting_loop_double 1773479760 1774828800 [\<lparr>sched_name = ''Operational 1'', sched_start = 1760434200, sched_end = 1886578200, sched_total = 4020000\<rparr>, \<lparr>sched_name = ''Operational 2'', sched_start = 1760434200, sched_end = 1774690200, sched_total = 1230000\<rparr>, \<lparr>sched_name = ''Operational 3'', sched_start = 1760434200, sched_end = 1773394200, sched_total = 1750000\<rparr>] (Finite (real_of_int 5366728662857956 / 2 ^ 34))"
    apply (rule vesting_loop_double_step[where rate = "Finite (real_of_int 8342855474092605 / 2 ^ 55)" and n = "Finite (real_of_int 1349040)"])
    subgoal using r0 by simp
    subgoal by simp
    subgoal using n0 by simp
    subgoal by (simp only: p0 t0)
    done
  have s1: "vesting_loop_double 1773479760 1774828800 (\<lparr>sched_name = ''Operational 1'', sched_start = 1760434200, sched_end = 1886578200, sched_total = 4020000\<rparr> # [\<lparr>sched_name = ''Operational 2'', sched_start = 1760434200, sched_end = 1774690200, sched_total = 1230000\<rparr>, \<lparr>sched_name = ''Operational 3'', sched_start = 1760434200, sched_end = 1773394200, sched_total = 1750000\<rparr>]) (Finite (real_of_int 5366728662857956 / 2 ^ 34))
      = vesting_loop_double 1773479760 1774828800 [\<lparr>sched_name = ''Operational 2'', sched_start = 1760434200, sched_end = 1774690200, sched_total = 1230000\<rparr>, \<lparr>sched_name = ''Operational 3'', sched_start = 1760434200, sched_end = 1773394200, sched_total = 1750000\<rparr>] (Finite (real_of_int 6105319872193423 / 2 ^ 34))"
    apply (rule vesting_loop_double_step[where rate = "Finite (real_of_int 4592711948764433 / 2 ^ 57)" and n = "Finite (real_of_int 1349040)"])
    subgoal using r1 by simp
    subgoal by simp
    subgoal using n1 by simp
    subgoal by (simp only: p1 t1)
    done
  have s2: "vesting_loop_double 1773479760 1774828800 (\<lparr>sched_name = ''Operational 2'', sched_start = 1760434200, sched_end = 1774690200, sched_total = 1230000\<rparr> # [\<lparr>sched_name = ''Operational 3'', sched_start = 1760434200, sched_end = 1773394200, sched_total = 1750000\<rparr>]) (Finite (real_of_int 6105319872193423 / 2 ^ 34))
      = vesting_loop_double 1773479760 1774828800 [\<lparr>sched_name = ''Operational 3'', sched_start = 1760434200, sched_end = 1773394200, sched_total = 1750000\<rparr>] (Finite (real_of_int 7899518599168001 / 2 ^ 34))"
    apply (rule vesting_loop_double_step[where rate = "Finite (real_of_int 6217090394686543 / 2 ^ 56)" and n = "Finite (real_of_int 1210440)"])
    subgoal using r2 by simp
    subgoal by simp
    subgoal using n2 by simp
    subgoal by (simp only: p2 t2)
    done
  have s3: "vesting_loop_double 1773479760 1774828800 (\<lparr>sched_name = ''Operational 3'', sched_start = 1760434200, sched_end = 1773394200, sched_total = 1750000\<rparr> # []) (Finite (real_of_int 7899518599168001 / 2 ^ 34))
      = vesting_loop_double 1773479760 1774828800 [] (Finite (real_of_int 7899518599168001 / 2 ^ 34))"
    apply (rule vesting_loop_double_skip[where rate = "Finite (real_of_int 4864999597468128 / 2 ^ 55)"])
    subgoal using r3 by simp
    subgoal by simp
    done
  have "vesting_loop_double 1773479760 1774828800
     [\<lparr>sched_name = ''Vesting Contract'', sched_start = 1760434200, sched_end = 1823506200, sched_total = 14605000\<rparr>, \<lparr>sched_name = ''Operational 1'', sched_start = 1760434200, sched_end = 1886578200, sched_total = 4020000\<rparr>, \<lparr>sched_name = ''Operational 2'', sched_start = 1760434200, sched_end = 1774690200, sched_total = 1230000\<rparr>, \<lparr>sched_name = ''Operational 3'', sched_start = 1760434200, sched_end = 1773394200, sched_total = 1750000\<rparr>] (Finite 0) = Inr (Finite (real_of_int 7899518599168001 / 2 ^ 34))"
    by (simp only: s0 s1 s2 s3 vesting_loop_double.simps(1))
  then show ?thesis
    unfolding calculate_vesting_projection_double_def by (simp add: py_round_def)
qed

lemma huge_total_overflows:
  "calculate_vesting_projection_double 0 1
     [\<lparr>sched_name = ''Huge'', sched_start = 0, sched_end = 1, sched_total = 2 ^ 1100\<rparr>]
     = Inl OverflowError"
proof -
  have "round_double (2 ^ 1100) = real_of_int (py_round (2 ^ 1100 / 2 ^ 1048)) * 2 ^ 1048"
    by (rule round_double_scale_down) simp_all
  also have "(2 ^ 1100 / 2 ^ 1048 :: real) = 2 ^ 52" by simp
  also have "py_round (2 ^ 52) = 2 ^ 52" by (simp add: py_round_def)
  finally have r: "round_double (2 ^ 1100) = 2 ^ 1100" by simp
  have x: "real_of_int (2 ^ 1100) / real_of_int 1 = 2 ^ 1100" by simp
  have l: "double_limit \<le> \<bar>2 ^ 1100\<bar>" by (simp add: double_limit_def)
  have o: "(1::int) \<noteq> 0" by simp
  have "int_true_div (2 ^ 1100) 1 = Inl OverflowError"
    unfolding int_true_div_def x r Let_def if_not_P[OF o] if_P[OF l] ..
  then have "int_true_div (sched_total \<lparr>sched_name = ''Huge'', sched_start = 0, sched_end = 1, sched_total = 2 ^ 1100\<rparr>)
                (sched_end \<lparr>sched_name = ''Huge'', sched_start = 0, sched_end = 1, sched_total = 2 ^ 1100\<rparr>
                   - sched_start \<lparr>sched_name = ''Huge'', sched_start = 0, sched_end = 1, sched_total = 2 ^ 1100\<rparr>)
              = Inl OverflowError"
    by (simp only: vesting_schedule.simps diff_zero)
  then show ?thesis
    by (simp only: calculate_vesting_projection_double_def vesting_loop_double.simps sum.case)
qed

text \<open>
  Rounding happens once, on the accumulated total: two schedules that contribute
  \<^verbatim>\<open>0.4\<close> each project to 1, where each alone projects to 0.
\<close>

lemma two_schedules_projection:
  "calculate_vesting_projection_double 0 1
     [\<lparr>sched_name = ''A'', sched_start = 0, sched_end = 10, sched_total = 4\<rparr>,
     \<lparr>sched_name = ''B'', sched_start = 0, sched_end = 10, sched_total = 4\<rparr>] = Inr 1"
proof -
  have r0: "int_true_div 4 10 = Inr (Finite (real_of_int 7205759403792794 / 2 ^ 54))"
    by (rule int_true_div_up) (simp_all add: py_round_def)
  have n0: "int_to_double 1 = Inr (Finite (real_of_int 1))"
    by (rule int_to_double_exact) simp
  have p0: "double_mul (Finite (real_of_int 7205759403792794 / 2 ^ 54)) (Finite (real_of_int 1)) = Finite (real_of_int 7205759403792794 / 2 ^ 54)"
    by (rule double_mul_up) (simp_all add: py_round_def)
  have t0: "double_add (Finite 0) (Finite (real_of_int 7205759403792794 / 2 ^ 54)) = Finite (real_of_int 7205759403792794 / 2 ^ 54)"
    by (rule double_add_up) (simp_all add: py_round_def)
  have r1: "int_true_div 4 10 = Inr (Finite (real_of_int 7205759403792794 / 2 ^ 54))"
    by (rule int_true_div_up) (simp_all add: py_round_def)
  have n1: "int_to_double 1 = Inr (Finite (real_of_int 1))"
    by (rule int_to_double_exact) simp
  have p1: "double_mul (Finite (real_of_int 7205759403792794 / 2 ^ 54)) (Finite (real_of_int 1)) = Finite (real_of_int 7205759403792794 / 2 ^ 54)"
    by (rule double_mul_up) (simp_all add: py_round_def)
  have t1: "double_add (Finite (real_of_int 7205759403792794 / 2 ^ 54)) (Finite (real_of_int 7205759403792794 / 2 ^ 54)) = Finite (real_of_int 7205759403792794 / 2 ^ 53)"
    by (rule double_add_up) (simp_all add: py_round_def)
  have s0: "vesting_loop_double 0 1 (\<lparr>sched_name = ''A'', sched_start = 0, sched_end = 10, sched_total = 4\<rparr> # [\<lparr>sched_name = ''B'', sched_start = 0, sched_end = 10, sched_total = 4\<rparr>]) (Finite 0)
      = vesting_loop_double 0 1 [\<lparr>sched_name = ''B'', sched_start = 0, sched_end = 10, sched_total = 4\<rparr>] (Finite (real_of_int 7205759403792794 / 2 ^ 54))"
    apply (rule vesting_loop_double_step[where rate = "Finite (real_of_int 7205759403792794 / 2 ^ 54)" and n = "Finite (real_of_int 1)"])
    subgoal using r0 by simp
    subgoal by simp
    subgoal using n0 by simp
    subgoal by (simp only: p0 t0)
    done
  have s1: "vesting_loop_double 0 1 (\<lparr>sched_name = ''B'', sched_start = 0, sched_end = 10, sched_total = 4\<rparr> # []) (Finite (real_of_int 7205759403792794 / 2 ^ 54))
      = vesting_loop_double 0 1 [] (Finite (real_of_int 7205759403792794 / 2 ^ 53))"
    apply (rule vesting_loop_double_step[where rate = "Finite (real_of_int 7205759403792794 / 2 ^ 54)" and n = "Finite (real_of_int 1)"])
    subgoal using r1 by simp
    subgoal by simp
    subgoal using n1 by simp
    subgoal by (simp only: p1 t1)
    done
  have "vesting_loop_double 0 1
     [\<lparr>sched_name = ''A'', sched_start = 0, sched_end = 10, sched_total = 4\<rparr>, \<lparr>sched_name = ''B'', sched_start = 0, sched_end = 10, sched_total = 4\<rparr>] (Finite 0) = Inr (Finite (real_of_int 7205759403792794 / 2 ^ 53))"
    by (simp only: s0 s1 vesting_loop_double.simps(1))
  then show ?thesis
    unfolding calculate_vesting_projection_double_def by (simp add: py_round_def)
qed

lemma one_schedule_projection:
  "calculate_vesting_projection_double 0 1
     [\<lparr>sched_name = ''A'', sched_start = 0, sched_end = 10, sched_total = 4\<rparr>] = Inr 0"
proof -
  have r0: "int_true_div 4 10 = Inr (Finite (real_of_int 7205759403792794 / 2 ^ 54))"
    by (rule int_true_div_up) (simp_all add: py_round_def)
  have n0: "int_to_double 1 = Inr (Finite (real_of_int 1))"
    by (rule int_to_double_exact) simp
  have p0: "double_mul (Finite (real_of_int 7205759403792794 / 2 ^ 54)) (Finite (real_of_int 1)) = Finite (real_of_int 7205759403792794 / 2 ^ 54)"
    by (rule double_mul_up) (simp_all add: py_round_def)
  have t0: "double_add (Finite 0) (Finite (real_of_int 7205759403792794 / 2 ^ 54)) = Finite (real_of_int 7205759403792794 / 2 ^ 54)"
    by (rule double_add_up) (simp_all add: py_round_def)
  have s0: "vesting_loop_double 0 1 (\<lparr>sched_name = ''A'', sched_start = 0, sched_end = 10, sched_total = 4\<rparr> # []) (Finite 0)
      = vesting_loop_double 0 1 [] (Finite (real_of_int 7205759403792794 / 2 ^ 54))"
    apply (rule vesting_loop_double_step[where rate = "Finite (real_of_int 7205759403792794 / 2 ^ 54)" and n = "Finite (real_of_int 1)"])
    subgoal using r0 by simp
    subgoal by simp
    subgoal using n0 by simp
    subgoal by (simp only: p0 t0)
    done
  have "vesting_loop_double 0 1
     [\<lparr>sched_name = ''A'', sched_start = 0, sched_end = 10, sched_total = 4\<rparr>] (Finite 0) = Inr (Finite (real_of_int 7205759403792794 / 2 ^ 54))"
    by (simp only: s0 vesting_loop_double.simps(1))
  then show ?thesis
    unfolding calculate_vesting_projection_double_def by (simp add: py_round_def)
qed

text \<open>
  C5: for every \<open>now \<ge> - 2 ^ 63\<close>, every target date and every list of at most \<open>2 ^ 32\<close>
  schedules with \<open>end > start\<close>, \<open>0 \<le> total < 2 ^ 63\<close>, \<open>- 2 ^ 63 \<le> start\<close> and \<open>end < 2 ^ 63\<close>,
  the projector raises no error and returns \<open>round(D)\<close>, a nearest integer (ties to even)
  of the float total \<open>D\<close> that the loop accumulates, rounded once, at the end.  With \<open>n\<close>
  schedules, \<open>D\<close> lies between \<open>S * (1 - 2 ^ (- 53)) ^ (n + 3)\<close> and
  \<open>S * (1 + 2 ^ (- 53)) ^ (n + 3)\<close>, where \<open>S\<close> is the exact sum over the schedules of
  \<open>rate \<times> (effective_end - now)\<close> where \<open>effective_end = min(target, end) > now\<close> and of 0
  elsewhere, with \<open>rate = total / (end - start)\<close>.  The schedule
  \<open>{start = 0, end = 100, total = 100}\<close> with \<open>now = 50\<close> and \<open>target = 100\<close> projects to 50.
\<close>

theorem vesting_projection_double_sum:
  assumes "\<forall>v\<in>set schedules. schedule_in_range v" and "- (2 ^ 63) \<le> now_ts"
    and "length schedules \<le> 2 ^ 32"
  shows "(\<exists>D. vesting_loop_double now_ts target_ts schedules (Finite 0) = Inr (Finite D)
            \<and> calculate_vesting_projection_double now_ts target_ts schedules = Inr (py_round D)
            \<and> (\<Sum>v\<leftarrow>schedules. spec_contribution now_ts target_ts v)
                 * (1 - 1 / 2 ^ 53) ^ (length schedules + 3) \<le> D
            \<and> D \<le> (\<Sum>v\<leftarrow>schedules. spec_contribution now_ts target_ts v)
                 * (1 + 1 / 2 ^ 53) ^ (length schedules + 3)
            \<and> \<bar>real_of_int (py_round D) - D\<bar> \<le> 1 / 2)
         \<and> calculate_vesting_projection_double 50 100
             [\<lparr>sched_name = ''Example'', sched_start = 0, sched_end = 100, sched_total = 100\<rparr>]
             = Inr 50"
  using vesting_projection_double_bounds[OF assms] example_projection by (rule conjI)

theorem vesting_projection_double_sum_witness:
  "list_all schedule_in_range VESTING_SCHEDULES
   \<and> - (2 ^ 63) \<le> (1773479760::int)
   \<and> length VESTING_SCHEDULES \<le> 2 ^ 32
   \<and> (\<exists>D. vesting_loop_double 1773479760 1774828800 VESTING_SCHEDULES (Finite 0) = Inr (Finite D)
           \<and> calculate_vesting_projection_double 1773479760 1774828800 VESTING_SCHEDULES
               = Inr (py_round D)
           \<and> (\<Sum>v\<leftarrow>VESTING_SCHEDULES. spec_contribution 1773479760 1774828800 v)
                * (1 - 1 / 2 ^ 53) ^ (length VESTING_SCHEDULES + 3) \<le> D
           \<and> D \<le> (\<Sum>v\<leftarrow>VESTING_SCHEDULES. spec_contribution 1773479760 1774828800 v)
                * (1 + 1 / 2 ^ 53) ^ (length VESTING_SCHEDULES + 3)
           \<and> \<bar>real_of_int (py_round D) - D\<bar> \<le> 1 / 2)"
proof -
  have h: "\<forall>v\<in>set VESTING_SCHEDULES. schedule_in_range v"
    by (simp add: VESTING_SCHEDULES_def schedule_in_range_def)
  have n: "- (2 ^ 63) \<le> (1773479760::int)" by simp
  have l: "length VESTING_SCHEDULES \<le> 2 ^ 32" by (simp add: VESTING_SCHEDULES_def)
  from conjunct1[OF vesting_projection_double_sum[OF h n l, of 1774828800]] h n l show ?thesis
    by (simp only: list_all_iff simp_thms)
qed

text \<open>
  The projection is not always a nearest integer of the exact sum.  For \<^const>\<open>late_grant\<close>
  the exact sum is \<open>56417604 + 63072001 / 126144000\<close>, above the half, and rounds to
  56417605; the float product is \<open>56417604.5\<close>, a tie, and the projector returns 56417604.
  For the repository's table at 2026-03-14 09:16:00 UTC and the target 2026-03-30 the
  exact sum is \<open>459812.5\<close>, which rounds to the even 459812; the float total is above the
  half and the projector returns 459813.  A total too large for a float raises
  \<^verbatim>\<open>OverflowError\<close>.
\<close>

theorem projection_not_nearest_to_exact_sum:
  "sched_start late_grant < sched_end late_grant
   \<and> calculate_vesting_projection_double 1776705049 1893456000 [late_grant] = Inr 56417604
   \<and> (\<Sum>v\<leftarrow>[late_grant]. spec_contribution 1776705049 1893456000 v)
       = 56417604 + 63072001 / 126144000
   \<and> py_round (\<Sum>v\<leftarrow>[late_grant]. spec_contribution 1776705049 1893456000 v) = 56417605
   \<and> calculate_vesting_projection_double 1773479760 1774828800 VESTING_SCHEDULES = Inr 459813
   \<and> (\<Sum>v\<leftarrow>VESTING_SCHEDULES. spec_contribution 1773479760 1774828800 v) = 459812 + 1 / 2
   \<and> py_round (\<Sum>v\<leftarrow>VESTING_SCHEDULES. spec_contribution 1773479760 1774828800 v) = 459812
   \<and> calculate_vesting_projection_double 0 1
       [\<lparr>sched_name = ''Huge'', sched_start = 0, sched_end = 1, sched_total = 2 ^ 1100\<rparr>]
       = Inl OverflowError"
proof -
  have a: "calculate_vesting_projection_double 1776705049 1893456000 [late_grant] = Inr 56417604"
    unfolding late_grant_def by (rule late_grant_projection)
  have b: "(\<Sum>v\<leftarrow>[late_grant]. spec_contribution 1776705049 1893456000 v)
       = 56417604 + 63072001 / 126144000"
    by (simp add: late_grant_def spec_contribution_def spec_rate_def)
  have c: "py_round (56417604 + 63072001 / 126144000) = 56417605"
    by (simp add: py_round_def)
  have d: "calculate_vesting_projection_double 1773479760 1774828800 VESTING_SCHEDULES = Inr 459813"
    unfolding VESTING_SCHEDULES_def by (rule repository_projection)
  have e: "(\<Sum>v\<leftarrow>VESTING_SCHEDULES. spec_contribution 1773479760 1774828800 v) = 459812 + 1 / 2"
    by (simp add: VESTING_SCHEDULES_def spec_contribution_def spec_rate_def)
  have f: "py_round (459812 + 1 / 2) = 459812"
    by (simp add: py_round_def)
  have g: "sched_start late_grant < sched_end late_grant" by (simp add: late_grant_def)
  show ?thesis unfolding b e using a c d f g huge_total_overflows by simp
qed






section \<open>Properties of the volume normalizer\<close>

lemma sort_key_strict:
  assumes "distinct (map fst q)"
  shows "sorted_wrt (<) (map fst (sort_key fst q))"
proof -
  have "mset (map fst (sort_key fst q)) = mset (map fst q)" by simp
  then have "distinct (map fst (sort_key fst q))"
    using assms mset_eq_imp_distinct_iff by blast
  then show ?thesis by (simp add: strict_sorted_iff)
qed

lemma slice_last_between: "slice_last n xs = slice_between n 0 xs"
  by (simp add: slice_last_def slice_between_def)

lemma dedup_latest_distinct: "distinct (map fst xs) \<Longrightarrow> dedup_latest xs = xs"
  by (induction xs) auto

lemma length_qualifying_le: "length (qualifying today xs) \<le> length xs"
  by (simp add: qualifying_def)

lemma rolling_7day_qualifying:
  "rolling_7day today xs exch =
     (let filtered = sort_key fst (qualifying today xs)
      in if length filtered < 7 then None
         else Some \<lparr>exchange = exch,
                    volume_7d = sum_list (map snd (slice_last 7 filtered)),
                    avg_daily = sum_list (map snd (slice_last 7 filtered)) / 7,
                    wow_pct =
                      (if length filtered \<ge> 14 \<and> sum_list (map snd (slice_between 14 7 filtered)) > 0
                       then Some ((sum_list (map snd (slice_last 7 filtered))
                                    - sum_list (map snd (slice_between 14 7 filtered)))
                                   / sum_list (map snd (slice_between 14 7 filtered)) * 100)
                       else None)\<rparr>)"
proof (cases "length xs < 7")
  case True
  then have "length (sort_key fst (qualifying today xs)) < 7"
    using length_qualifying_le[of today xs] by simp
  with True show ?thesis by (simp add: rolling_7day_def Let_def)
next
  case False
  then show ?thesis by (simp add: rolling_7day_def qualifying_def Let_def)
qed

lemma rolling_7day_None_iff:
  "rolling_7day today xs exch = None \<longleftrightarrow> length (qualifying today xs) < 7"
  by (simp add: rolling_7day_qualifying Let_def)

lemma qualifying_days_distinct:
  "distinct (map fst (qualifying today xs)) \<Longrightarrow>
   qualifying_days today xs = length (qualifying today xs)"
  by (simp add: qualifying_days_def distinct_remdups_id)

lemma later_days_double_card: "later_days_double d xs = card {d' \<in> fst ` set xs. d < d'}"
proof -
  have "distinct (filter (\<lambda>d'. d < d') (remdups (map fst xs)))" by simp
  then have "later_days_double d xs = card (set (filter (\<lambda>d'. d < d') (remdups (map fst xs))))"
    unfolding later_days_double_def by (simp only: distinct_card)
  also have "set (filter (\<lambda>d'. d < d') (remdups (map fst xs))) = {d' \<in> fst ` set xs. d < d'}"
    by auto
  finally show ?thesis .
qed

lemma later_days_double_set_cong:
  "set xs = set ys \<Longrightarrow> later_days_double d xs = later_days_double d ys"
  by (simp add: later_days_double_card)

lemma later_days_double_head:
  assumes "sorted_wrt (<) (map fst (x # xs))"
  shows "later_days_double (fst x) (x # xs) = length xs"
proof -
  have d: "distinct (map fst xs)" and a: "\<forall>y\<in>set xs. fst x < fst y"
    using assms by (auto simp: strict_sorted_iff)
  have "filter (\<lambda>d'. fst x < d') (map fst xs) = map fst xs"
    using a by (simp add: filter_id_conv)
  moreover have "fst x \<notin> set (map fst xs)" using a by auto
  ultimately show ?thesis using d unfolding later_days_double_def by (simp add: distinct_remdups_id)
qed

lemma later_days_double_tail:
  assumes "sorted_wrt (<) (map fst (x # xs))" "y \<in> set xs"
  shows "later_days_double (fst y) (x # xs) = later_days_double (fst y) xs"
proof -
  have "fst x < fst y" using assms by auto
  then have "{d' \<in> fst ` set (x # xs). fst y < d'} = {d' \<in> fst ` set xs. fst y < d'}"
    by auto
  then show ?thesis by (simp only: later_days_double_card)
qed

lemma band_filter_Cons:
  assumes "sorted_wrt (<) (map fst (x # xs))"
  shows "filter (\<lambda>y. lo \<le> later_days_double (fst y) (x # xs) \<and> later_days_double (fst y) (x # xs) < hi) (x # xs)
           = (if lo \<le> length xs \<and> length xs < hi then [x] else [])
             @ filter (\<lambda>y. lo \<le> later_days_double (fst y) xs \<and> later_days_double (fst y) xs < hi) xs"
proof -
  have "filter (\<lambda>y. lo \<le> later_days_double (fst y) (x # xs) \<and> later_days_double (fst y) (x # xs) < hi) xs
        = filter (\<lambda>y. lo \<le> later_days_double (fst y) xs \<and> later_days_double (fst y) xs < hi) xs"
    by (rule filter_cong[OF refl]) (simp only: later_days_double_tail[OF assms])
  then show ?thesis
    by (simp add: later_days_double_head[OF assms])
qed

lemma band_filter_sorted:
  assumes "sorted_wrt (<) (map fst ys)" "lo \<le> hi"
  shows "filter (\<lambda>y. lo \<le> later_days_double (fst y) ys \<and> later_days_double (fst y) ys < hi) ys
           = slice_between hi lo ys"
  using assms(1)
proof (induction ys)
  case Nil
  then show ?case by (simp add: slice_between_def)
next
  case (Cons x xs)
  then have IH: "filter (\<lambda>y. lo \<le> later_days_double (fst y) xs \<and> later_days_double (fst y) xs < hi) xs
                   = slice_between hi lo xs" by simp
  show ?case
    unfolding band_filter_Cons[OF Cons.prems] IH using assms(2)
    by (auto simp: slice_between_def Suc_diff_le take_Cons drop_Cons split: nat.splits)
qed

lemma window_band_filter:
  assumes "distinct (map fst q)" "lo \<le> hi"
  shows "slice_between hi lo (sort_key fst q)
           = sort_key fst (filter (\<lambda>y. lo \<le> later_days_double (fst y) q \<and> later_days_double (fst y) q < hi) q)"
proof -
  have s: "set (sort_key fst q) = set q" by simp
  have "slice_between hi lo (sort_key fst q)
          = filter (\<lambda>y. lo \<le> later_days_double (fst y) (sort_key fst q)
                       \<and> later_days_double (fst y) (sort_key fst q) < hi) (sort_key fst q)"
    using band_filter_sorted[OF sort_key_strict[OF assms(1)] assms(2)] by simp
  also have "\<dots> = filter (\<lambda>y. lo \<le> later_days_double (fst y) q \<and> later_days_double (fst y) q < hi) (sort_key fst q)"
    by (simp only: later_days_double_set_cong[OF s])
  also have "\<dots> = sort_key fst (filter (\<lambda>y. lo \<le> later_days_double (fst y) q \<and> later_days_double (fst y) q < hi) q)"
    by (simp only: filter_sort)
  finally show ?thesis .
qed

lemma length_qualifying_double_le: "length (qualifying_double today xs) \<le> length xs"
  by (simp add: qualifying_double_def)

lemma rolling_7day_double_windows:
  "rolling_7day_double today xs exch =
     (let filtered = sort_key fst (qualifying_double today xs)
      in if length filtered < 7 then Inr None
         else window_sample exch (map snd (slice_last 7 filtered))
                (if length filtered \<ge> 14 then Some (map snd (slice_between 14 7 filtered)) else None))"
proof (cases "length xs < 7")
  case True
  then have "length (sort_key fst (qualifying_double today xs)) < 7"
    using length_qualifying_double_le[of today xs] by simp
  with True show ?thesis by (simp add: rolling_7day_double_def Let_def)
next
  case False
  then show ?thesis
    by (simp add: rolling_7day_double_def qualifying_double_def window_sample_def Let_def
          del: double_div.simps cong: if_cong sum.case_cong)
qed

lemma rolling_double_eq_spec:
  assumes "distinct (map fst (qualifying_double today xs))"
  shows "rolling_7day_double today xs exch = spec_rolling_7day_double today xs exch"
proof -
  have "distinct (map fst (sort_key fst (qualifying_double today xs)))"
    using sort_key_strict[OF assms] by (simp add: strict_sorted_iff)
  then have "dedup_latest (sort_key fst (qualifying_double today xs)) = sort_key fst (qualifying_double today xs)"
    by (rule dedup_latest_distinct)
  then show ?thesis
    by (simp add: rolling_7day_double_windows spec_rolling_7day_double_def Let_def)
qed

lemma qualifying_days_double_distinct:
  "distinct (map fst (qualifying_double today xs)) \<Longrightarrow>
   qualifying_days_double today xs = length (qualifying_double today xs)"
  by (simp add: qualifying_days_double_def distinct_remdups_id)

lemma rolling_double_weeks:
  assumes "distinct (map fst (qualifying_double today xs))"
  shows "rolling_7day_double today xs exch =
           (if qualifying_days_double today xs < 7 then Inr None
            else window_sample exch (week_values_double 0 (qualifying_double today xs))
                   (if 14 \<le> qualifying_days_double today xs
                    then Some (week_values_double 1 (qualifying_double today xs)) else None))"
proof -
  have c: "map snd (slice_last 7 (sort_key fst (qualifying_double today xs)))
             = week_values_double 0 (qualifying_double today xs)"
    using window_band_filter[OF assms, of 0 7]
    by (simp add: slice_last_between week_values_double_def)
  have p: "map snd (slice_between 14 7 (sort_key fst (qualifying_double today xs)))
             = week_values_double 1 (qualifying_double today xs)"
    using window_band_filter[OF assms, of 7 14] by (simp add: week_values_double_def)
  show ?thesis
    unfolding rolling_7day_double_windows Let_def c p qualifying_days_double_distinct[OF assms]
    by simp
qed

lemma window_sample_wow:
  assumes "double_sum cur = c" "double_sum prev = p" "double_gt_zero p"
    and "double_div (double_sub c p) p = Inr q" "double_mul q (Finite 100) = w"
    and "double_div c (Finite 7) = Inr avg"
  shows "window_sample exch cur (Some prev)
           = Inr (Some \<lparr>exchange = exch, volume_7d = c, avg_daily = avg, wow_pct = Some w\<rparr>)"
  by (simp only: window_sample_def Let_def assms option.case sum.case if_True)

lemma window_sample_some: "\<exists>s. window_sample exch cur prev = Inr (Some s)"
proof -
  have a: "\<exists>avg. double_div (double_sum cur) (Finite 7) = Inr avg" by (cases "double_sum cur") auto
  then obtain avg where avg: "double_div (double_sum cur) (Finite 7) = Inr avg" by blast
  show ?thesis
  proof (cases prev)
    case None
    then show ?thesis by (simp only: window_sample_def Let_def option.case sum.case avg) blast
  next
    case (Some pv)
    show ?thesis
    proof (cases "double_gt_zero (double_sum pv)")
      case True
      from double_div_positive[OF True, of "double_sub (double_sum cur) (double_sum pv)"]
      obtain q where q: "double_div (double_sub (double_sum cur) (double_sum pv)) (double_sum pv) = Inr q"
        by blast
      show ?thesis unfolding Some
        by (simp only: window_sample_def Let_def option.case sum.case avg q if_P[OF True]) blast
    next
      case False
      show ?thesis unfolding Some
        by (simp only: window_sample_def Let_def option.case sum.case avg if_not_P[OF False]) blast
    qed
  qed
qed

text \<open>
  The normalizer raises no error, and the exact reading takes the same decision between a
  sample and absence-of-value.
\<close>

lemma rolling_7day_double_returns:
  "\<exists>r. rolling_7day_double today xs exch = Inr r"
  using window_sample_some by (simp add: rolling_7day_double_windows Let_def) metis

lemma rolling_7day_double_None_iff:
  "rolling_7day_double today xs exch = Inr None \<longleftrightarrow> length (qualifying_double today xs) < 7"
  using window_sample_some
  by (auto simp: rolling_7day_double_windows Let_def) (metis Inr_inject option.distinct(1))+

lemma rolling_7day_decision:
  "rolling_7day_double today xs exch = Inr None
     \<longleftrightarrow> rolling_7day today (map (\<lambda>(d, v). (d, double_value v)) xs) exch = None"
proof -
  have "length (qualifying today (map (\<lambda>(d, v). (d, double_value v)) xs))
          = length (qualifying_double today xs)"
    unfolding qualifying_def qualifying_double_def
    by (induction xs) (auto split: prod.splits)
  then show ?thesis by (simp only: rolling_7day_double_None_iff rolling_7day_None_iff)
qed

lemmas normalizer_eval =
  rolling_7day_double_def spec_rolling_7day_double_def window_sample_def qualifying_double_def
  qualifying_days_double_def week_values_double_def later_days_double_def slice_last_def
  slice_between_def double_sum_def double_sub_def to_double_Ints to_double_0 Let_def

text \<open>
  C1: for every input whose qualifying pairs (those dated strictly before the current UTC
  date) carry pairwise distinct dates, the result of the normalizer is the result of the
  sort-and-deduplicate computation of the specification, and each calendar day
  contributes exactly one quote-volume to the window sums: fewer than 7 qualifying days
  give absence-of-value, otherwise \<open>volume_7d\<close> is the float sum, in the order of the dates,
  of the quote-volumes of the 7 most recent qualifying days, and with 14 or more
  qualifying days the previous total is that of the 7 qualifying days before them.
\<close>

theorem rolling_7day_distinct_dates:
  assumes "distinct (map fst (qualifying_double today xs))"
  shows "rolling_7day_double today xs exch = spec_rolling_7day_double today xs exch
         \<and> rolling_7day_double today xs exch =
             (if qualifying_days_double today xs < 7 then Inr None
              else window_sample exch (week_values_double 0 (qualifying_double today xs))
                     (if 14 \<le> qualifying_days_double today xs
                      then Some (week_values_double 1 (qualifying_double today xs)) else None))"
  using rolling_double_eq_spec[OF assms] rolling_double_weeks[OF assms] by simp

theorem rolling_7day_distinct_dates_witness:
  "distinct (map fst (qualifying_double 15 sample_fortnight))
   \<and> rolling_7day_double 15 sample_fortnight ''X''
       = Inr (Some \<lparr>exchange = ''X'', volume_7d = Finite 14, avg_daily = Finite 2,
                    wow_pct = Some (Finite 100)\<rparr>)
   \<and> spec_rolling_7day_double 15 sample_fortnight ''X''
       = Inr (Some \<lparr>exchange = ''X'', volume_7d = Finite 14, avg_daily = Finite 2,
                    wow_pct = Some (Finite 100)\<rparr>)
   \<and> qualifying_days_double 15 sample_fortnight = 14
   \<and> week_values_double 0 (qualifying_double 15 sample_fortnight)
       = [Finite 2, Finite 3, Finite 1, Finite 2, Finite 2, Finite 2, Finite 2]
   \<and> week_values_double 1 (qualifying_double 15 sample_fortnight)
       = [Finite 1, Finite 1, Finite 1, Finite 1, Finite 1, Finite 1, Finite 1]"
proof -
  have d: "distinct (map fst (qualifying_double 15 sample_fortnight))"
    by (simp add: qualifying_double_def sample_fortnight_def)
  have n: "qualifying_days_double 15 sample_fortnight = 14"
    by (simp add: qualifying_days_double_def qualifying_double_def sample_fortnight_def)
  have w0: "week_values_double 0 (qualifying_double 15 sample_fortnight)
       = [Finite 2, Finite 3, Finite 1, Finite 2, Finite 2, Finite 2, Finite 2]"
    by (simp add: week_values_double_def later_days_double_def qualifying_double_def
          sample_fortnight_def)
  have w1: "week_values_double 1 (qualifying_double 15 sample_fortnight)
       = [Finite 1, Finite 1, Finite 1, Finite 1, Finite 1, Finite 1, Finite 1]"
    by (simp add: week_values_double_def later_days_double_def qualifying_double_def
          sample_fortnight_def)
  have s: "window_sample ''X'' [Finite 2, Finite 3, Finite 1, Finite 2, Finite 2, Finite 2, Finite 2]
             (Some [Finite 1, Finite 1, Finite 1, Finite 1, Finite 1, Finite 1, Finite 1])
           = Inr (Some \<lparr>exchange = ''X'', volume_7d = Finite 14, avg_daily = Finite 2,
                        wow_pct = Some (Finite 100)\<rparr>)"
    by (simp add: window_sample_def double_sum_def double_sub_def to_double_Ints)
  note t = rolling_7day_distinct_dates[OF d, of "''X''"]
  have "rolling_7day_double 15 sample_fortnight ''X''
          = window_sample ''X'' [Finite 2, Finite 3, Finite 1, Finite 2, Finite 2, Finite 2, Finite 2]
              (Some [Finite 1, Finite 1, Finite 1, Finite 1, Finite 1, Finite 1, Finite 1])"
    using conjunct2[OF t] unfolding n w0 w1 by simp
  then have r: "rolling_7day_double 15 sample_fortnight ''X''
       = Inr (Some \<lparr>exchange = ''X'', volume_7d = Finite 14, avg_daily = Finite 2,
                    wow_pct = Some (Finite 100)\<rparr>)"
    by (simp only: s)
  have e: "spec_rolling_7day_double 15 sample_fortnight ''X''
       = Inr (Some \<lparr>exchange = ''X'', volume_7d = Finite 14, avg_daily = Finite 2,
                    wow_pct = Some (Finite 100)\<rparr>)"
    using conjunct1[OF t] r by simp
  show ?thesis using d r e n w0 w1 by simp
qed

text \<open>
  The code filters and sorts, and never deduplicates.  With two pairs dated day 7 its
  window is days 2 to 7 with both pairs of day 7 (sum 14), where sorting and
  deduplicating gives days 1 to 7 with the later pair of day 7 (sum 21).
\<close>

theorem rolling_7day_repeated_date_counted_twice:
  "rolling_7day_double 10 repeated_day ''X''
     = Inr (Some \<lparr>exchange = ''X'', volume_7d = Finite 14, avg_daily = Finite 2,
                  wow_pct = None\<rparr>)
   \<and> spec_rolling_7day_double 10 repeated_day ''X''
     = Inr (Some \<lparr>exchange = ''X'', volume_7d = Finite 21, avg_daily = Finite 3,
                  wow_pct = None\<rparr>)"
  by (simp add: normalizer_eval repeated_day_def)

text \<open>
  C3: for every input whose qualifying pairs carry exactly 14 pairwise distinct dates
  (strictly before the current UTC date), in which the most recent 7-day total and the
  previous 7-day total, each the float sum of its seven quote-volumes in the order of the
  dates, are the same finite number and that number is positive, the normalizer returns a
  sample with \<open>wow_pct = 0\<close>.
\<close>

theorem wow_zero_on_equal_weeks:
  assumes "distinct (map fst (qualifying_double today xs))"
    and "qualifying_days_double today xs = 14"
    and "double_sum (week_values_double 0 (qualifying_double today xs)) = Finite t"
    and "double_sum (week_values_double 1 (qualifying_double today xs)) = Finite t"
    and "0 < t"
  shows "\<exists>s. rolling_7day_double today xs exch = Inr (Some s) \<and> wow_pct s = Some (Finite 0)"
proof -
  have g: "double_gt_zero (Finite t)" using assms(5) by simp
  have q: "double_div (double_sub (Finite t) (Finite t)) (Finite t) = Inr (Finite 0)"
    using assms(5) by (simp add: double_sub_def to_double_0)
  have w: "double_mul (Finite 0) (Finite 100) = Finite 0" by (simp add: to_double_0)
  have a: "double_div (Finite t) (Finite 7) = Inr (to_double (t / 7))" by simp
  have "rolling_7day_double today xs exch
          = window_sample exch (week_values_double 0 (qualifying_double today xs))
              (Some (week_values_double 1 (qualifying_double today xs)))"
    unfolding rolling_double_weeks[OF assms(1)] assms(2) by simp
  also have "\<dots> = Inr (Some \<lparr>exchange = exch, volume_7d = Finite t, avg_daily = to_double (t / 7),
                                wow_pct = Some (Finite 0)\<rparr>)"
    by (rule window_sample_wow[OF assms(3) assms(4) g q w a])
  finally show ?thesis by simp
qed

theorem wow_zero_on_equal_weeks_witness:
  "distinct (map fst (qualifying_double 15 even_fortnight))
   \<and> qualifying_days_double 15 even_fortnight = 14
   \<and> double_sum (week_values_double 0 (qualifying_double 15 even_fortnight)) = Finite 7
   \<and> double_sum (week_values_double 1 (qualifying_double 15 even_fortnight)) = Finite 7
   \<and> (0::real) < 7
   \<and> (\<exists>s. rolling_7day_double 15 even_fortnight ''X'' = Inr (Some s)
           \<and> wow_pct s = Some (Finite 0))"
proof -
  have d: "distinct (map fst (qualifying_double 15 even_fortnight))"
    by (simp add: qualifying_double_def even_fortnight_def)
  have n: "qualifying_days_double 15 even_fortnight = 14"
    by (simp add: qualifying_days_double_def qualifying_double_def even_fortnight_def)
  have w0: "double_sum (week_values_double 0 (qualifying_double 15 even_fortnight)) = Finite 7"
    by (simp add: week_values_double_def later_days_double_def qualifying_double_def
          even_fortnight_def double_sum_def to_double_Ints)
  have w1: "double_sum (week_values_double 1 (qualifying_double 15 even_fortnight)) = Finite 7"
    by (simp add: week_values_double_def later_days_double_def qualifying_double_def
          even_fortnight_def double_sum_def to_double_Ints)
  have p: "(0::real) < 7" by simp
  from wow_zero_on_equal_weeks[OF d n w0 w1 p, of "''X''"] d n w0 w1 show ?thesis by simp
qed

lemma zero_fortnight_sample:
  "distinct (map fst (qualifying_double 15 zero_fortnight))
   \<and> qualifying_days_double 15 zero_fortnight = 14
   \<and> double_sum (week_values_double 0 (qualifying_double 15 zero_fortnight)) = Finite 0
   \<and> double_sum (week_values_double 1 (qualifying_double 15 zero_fortnight)) = Finite 0
   \<and> rolling_7day_double 15 zero_fortnight ''X''
       = Inr (Some \<lparr>exchange = ''X'', volume_7d = Finite 0, avg_daily = Finite 0,
                    wow_pct = None\<rparr>)"
  by (simp add: normalizer_eval zero_fortnight_def)

lemma reordered_fortnight_sample:
  "double_sum [double_tenth, double_fifth, double_three_tenths, Finite 0, Finite 0, Finite 0, Finite 0] = Finite (real_of_int 5404319552844596 / 2 ^ 53)
   \<and> double_sum [double_three_tenths, double_fifth, double_tenth, Finite 0, Finite 0, Finite 0, Finite 0] = Finite (real_of_int 5404319552844595 / 2 ^ 53)
   \<and> window_sample ''X'' [double_tenth, double_fifth, double_three_tenths, Finite 0, Finite 0, Finite 0, Finite 0] (Some [double_three_tenths, double_fifth, double_tenth, Finite 0, Finite 0, Finite 0, Finite 0])
       = Inr (Some \<lparr>exchange = ''X'', volume_7d = Finite (real_of_int 5404319552844596 / 2 ^ 53), avg_daily = Finite (real_of_int 6176365203250967 / 2 ^ 56),
                    wow_pct = Some (Finite (real_of_int 5864062014805334 / 2 ^ 98))\<rparr>)"
proof -
  have a0: "double_add (Finite 0) (Finite (real_of_int 7205759403792794 / 2 ^ 56)) = Finite (real_of_int 7205759403792794 / 2 ^ 56)"
    by (rule double_add_up) (simp_all add: py_round_def)
  have a1: "double_add (Finite (real_of_int 7205759403792794 / 2 ^ 56)) (Finite (real_of_int 7205759403792794 / 2 ^ 55)) = Finite (real_of_int 5404319552844596 / 2 ^ 54)"
    by (rule double_add_up) (simp_all add: py_round_def)
  have a2: "double_add (Finite (real_of_int 5404319552844596 / 2 ^ 54)) (Finite (real_of_int 5404319552844595 / 2 ^ 54)) = Finite (real_of_int 5404319552844596 / 2 ^ 53)"
    by (rule double_add_up) (simp_all add: py_round_def)
  have a3: "double_add (Finite (real_of_int 5404319552844596 / 2 ^ 53)) (Finite 0) = Finite (real_of_int 5404319552844596 / 2 ^ 53)"
    by (rule double_add_up) (simp_all add: py_round_def)
  have a4: "double_add (Finite (real_of_int 5404319552844596 / 2 ^ 53)) (Finite 0) = Finite (real_of_int 5404319552844596 / 2 ^ 53)"
    by (rule double_add_up) (simp_all add: py_round_def)
  have a5: "double_add (Finite (real_of_int 5404319552844596 / 2 ^ 53)) (Finite 0) = Finite (real_of_int 5404319552844596 / 2 ^ 53)"
    by (rule double_add_up) (simp_all add: py_round_def)
  have a6: "double_add (Finite (real_of_int 5404319552844596 / 2 ^ 53)) (Finite 0) = Finite (real_of_int 5404319552844596 / 2 ^ 53)"
    by (rule double_add_up) (simp_all add: py_round_def)
  have a7: "double_add (Finite 0) (Finite (real_of_int 5404319552844595 / 2 ^ 54)) = Finite (real_of_int 5404319552844595 / 2 ^ 54)"
    by (rule double_add_up) (simp_all add: py_round_def)
  have a8: "double_add (Finite (real_of_int 5404319552844595 / 2 ^ 54)) (Finite (real_of_int 7205759403792794 / 2 ^ 55)) = Finite (real_of_int 4503599627370496 / 2 ^ 53)"
    by (rule double_add_up) (simp_all add: py_round_def)
  have a9: "double_add (Finite (real_of_int 4503599627370496 / 2 ^ 53)) (Finite (real_of_int 7205759403792794 / 2 ^ 56)) = Finite (real_of_int 5404319552844595 / 2 ^ 53)"
    by (rule double_add_up) (simp_all add: py_round_def)
  have a10: "double_add (Finite (real_of_int 5404319552844595 / 2 ^ 53)) (Finite 0) = Finite (real_of_int 5404319552844595 / 2 ^ 53)"
    by (rule double_add_up) (simp_all add: py_round_def)
  have a11: "double_add (Finite (real_of_int 5404319552844595 / 2 ^ 53)) (Finite 0) = Finite (real_of_int 5404319552844595 / 2 ^ 53)"
    by (rule double_add_up) (simp_all add: py_round_def)
  have a12: "double_add (Finite (real_of_int 5404319552844595 / 2 ^ 53)) (Finite 0) = Finite (real_of_int 5404319552844595 / 2 ^ 53)"
    by (rule double_add_up) (simp_all add: py_round_def)
  have a13: "double_add (Finite (real_of_int 5404319552844595 / 2 ^ 53)) (Finite 0) = Finite (real_of_int 5404319552844595 / 2 ^ 53)"
    by (rule double_add_up) (simp_all add: py_round_def)
  have a14: "double_sub (Finite (real_of_int 5404319552844596 / 2 ^ 53)) (Finite (real_of_int 5404319552844595 / 2 ^ 53)) = Finite (real_of_int 4503599627370496 / 2 ^ 105)"
    by (rule double_sub_up) (simp_all add: py_round_def)
  have a15: "double_div (Finite (real_of_int 4503599627370496 / 2 ^ 105)) (Finite (real_of_int 5404319552844595 / 2 ^ 53)) = Inr (Finite (real_of_int 7505999378950827 / 2 ^ 105))"
    by (rule double_div_up) (simp_all add: py_round_def)
  have a16: "double_mul (Finite (real_of_int 7505999378950827 / 2 ^ 105)) (Finite 100) = Finite (real_of_int 5864062014805334 / 2 ^ 98)"
    by (rule double_mul_up) (simp_all add: py_round_def)
  have a17: "double_div (Finite (real_of_int 5404319552844596 / 2 ^ 53)) (Finite 7) = Inr (Finite (real_of_int 6176365203250967 / 2 ^ 56))"
    by (rule double_div_up) (simp_all add: py_round_def)
  have dq: "double_div (double_sub (Finite (real_of_int 5404319552844596 / 2 ^ 53)) (Finite (real_of_int 5404319552844595 / 2 ^ 53))) (Finite (real_of_int 5404319552844595 / 2 ^ 53)) = Inr (Finite (real_of_int 7505999378950827 / 2 ^ 105))"
    by (simp only: a14 a15)
  have c: "double_sum [double_tenth, double_fifth, double_three_tenths, Finite 0, Finite 0, Finite 0, Finite 0] = Finite (real_of_int 5404319552844596 / 2 ^ 53)"
    by (simp only: double_sum_def foldl.simps double_tenth_value double_fifth_value double_three_tenths_value a0 a1 a2 a3 a4 a5 a6)
  have p: "double_sum [double_three_tenths, double_fifth, double_tenth, Finite 0, Finite 0, Finite 0, Finite 0] = Finite (real_of_int 5404319552844595 / 2 ^ 53)"
    by (simp only: double_sum_def foldl.simps double_tenth_value double_fifth_value double_three_tenths_value a7 a8 a9 a10 a11 a12 a13)
  have g: "double_gt_zero (Finite (real_of_int 5404319552844595 / 2 ^ 53))" by simp
  have "window_sample ''X'' [double_tenth, double_fifth, double_three_tenths, Finite 0, Finite 0, Finite 0, Finite 0] (Some [double_three_tenths, double_fifth, double_tenth, Finite 0, Finite 0, Finite 0, Finite 0])
       = Inr (Some \<lparr>exchange = ''X'', volume_7d = Finite (real_of_int 5404319552844596 / 2 ^ 53), avg_daily = Finite (real_of_int 6176365203250967 / 2 ^ 56),
                    wow_pct = Some (Finite (real_of_int 5864062014805334 / 2 ^ 98))\<rparr>)"
    by (rule window_sample_wow[OF c p g dq a16 a17])
  with c p show ?thesis by simp
qed

text \<open>
  Fourteen days without any volume: the two weekly totals are equal, both 0, and the
  sample carries no week-over-week change.  Fourteen days whose weeks are
  \<^verbatim>\<open>0.3, 0.2, 0.1, 0, 0, 0, 0\<close> and then \<^verbatim>\<open>0.1, 0.2, 0.3, 0, 0, 0, 0\<close>: the two weeks have
  the same exact total, the float sums are \<^verbatim>\<open>0.6\<close> and \<^verbatim>\<open>0.6000000000000001\<close>, and
  \<open>wow_pct\<close> is \<^verbatim>\<open>1.8503717077085944e-14\<close>, not 0.
\<close>

theorem wow_not_zero_on_equal_weeks:
  "distinct (map fst (qualifying_double 15 zero_fortnight))
   \<and> qualifying_days_double 15 zero_fortnight = 14
   \<and> double_sum (week_values_double 0 (qualifying_double 15 zero_fortnight)) = Finite 0
   \<and> double_sum (week_values_double 1 (qualifying_double 15 zero_fortnight)) = Finite 0
   \<and> rolling_7day_double 15 zero_fortnight ''X''
       = Inr (Some \<lparr>exchange = ''X'', volume_7d = Finite 0, avg_daily = Finite 0,
                    wow_pct = None\<rparr>)
   \<and> distinct (map fst (qualifying_double 15 reordered_fortnight))
   \<and> qualifying_days_double 15 reordered_fortnight = 14
   \<and> sum_list (map double_value (week_values_double 0 (qualifying_double 15 reordered_fortnight)))
       = sum_list (map double_value (week_values_double 1 (qualifying_double 15 reordered_fortnight)))
   \<and> rolling_7day_double 15 reordered_fortnight ''X''
       = Inr (Some \<lparr>exchange = ''X'', volume_7d = Finite (5404319552844596 / 2 ^ 53),
                    avg_daily = Finite (6176365203250967 / 2 ^ 56),
                    wow_pct = Some (Finite (5864062014805334 / 2 ^ 98))\<rparr>)"
proof -
  have d: "distinct (map fst (qualifying_double 15 reordered_fortnight))"
    by (simp add: qualifying_double_def reordered_fortnight_def)
  have n: "qualifying_days_double 15 reordered_fortnight = 14"
    by (simp add: qualifying_days_double_def qualifying_double_def reordered_fortnight_def)
  have w0: "week_values_double 0 (qualifying_double 15 reordered_fortnight)
       = [double_tenth, double_fifth, double_three_tenths, Finite 0, Finite 0, Finite 0, Finite 0]"
    by (simp add: week_values_double_def later_days_double_def qualifying_double_def
          reordered_fortnight_def)
  have w1: "week_values_double 1 (qualifying_double 15 reordered_fortnight)
       = [double_three_tenths, double_fifth, double_tenth, Finite 0, Finite 0, Finite 0, Finite 0]"
    by (simp add: week_values_double_def later_days_double_def qualifying_double_def
          reordered_fortnight_def)
  have e: "sum_list (map double_value (week_values_double 0 (qualifying_double 15 reordered_fortnight)))
       = sum_list (map double_value (week_values_double 1 (qualifying_double 15 reordered_fortnight)))"
    unfolding w0 w1
    by (simp add: double_tenth_value double_fifth_value double_three_tenths_value)
  have "rolling_7day_double 15 reordered_fortnight ''X''
          = window_sample ''X''
              [double_tenth, double_fifth, double_three_tenths, Finite 0, Finite 0, Finite 0, Finite 0]
              (Some [double_three_tenths, double_fifth, double_tenth, Finite 0, Finite 0, Finite 0, Finite 0])"
    unfolding rolling_double_weeks[OF d] n w0 w1 by simp
  then have r: "rolling_7day_double 15 reordered_fortnight ''X''
       = Inr (Some \<lparr>exchange = ''X'', volume_7d = Finite (5404319552844596 / 2 ^ 53),
                    avg_daily = Finite (6176365203250967 / 2 ^ 56),
                    wow_pct = Some (Finite (5864062014805334 / 2 ^ 98))\<rparr>)"
    using reordered_fortnight_sample by simp
  show ?thesis using zero_fortnight_sample d n e r by simp
qed

text \<open>
  C7: the normalizer returns no sample exactly when fewer than 7 pairs dated strictly
  before the current UTC date remain, a date that occurs several times counting that
  many times; so for every input whose qualifying pairs carry pairwise distinct dates,
  fewer than 7 qualifying days give absence-of-value.
\<close>

theorem insufficient_history:
  "(rolling_7day today xs exch = None \<longleftrightarrow> length (qualifying today xs) < 7)
   \<and> (distinct (map fst (qualifying today xs)) \<and> qualifying_days today xs < 7
        \<longrightarrow> rolling_7day today xs exch = None)"
  using qualifying_days_distinct[of today xs]
  by (auto simp: rolling_7day_None_iff)

theorem insufficient_history_witness:
  "distinct (map fst (qualifying (7::int) [(1,1),(2,1),(3,1),(4,1),(5,1),(6,1),(7,9),(7,4)])) \<and> qualifying_days (7::int) [(1,1),(2,1),(3,1),(4,1),(5,1),(6,1),(7,9),(7,4)] < 7
   \<and> length (qualifying (7::int) [(1,1),(2,1),(3,1),(4,1),(5,1),(6,1),(7,9),(7,4)]) < 7 \<and> rolling_7day (7::int) [(1,1),(2,1),(3,1),(4,1),(5,1),(6,1),(7,9),(7,4)] ''X'' = None"
proof -
  have h: "distinct (map fst (qualifying (7::int) [(1,1),(2,1),(3,1),(4,1),(5,1),(6,1),(7,9),(7,4)])) \<and> qualifying_days (7::int) [(1,1),(2,1),(3,1),(4,1),(5,1),(6,1),(7,9),(7,4)] < 7"
    by (simp add: qualifying_def qualifying_days_def)
  have l: "length (qualifying (7::int) [(1,1),(2,1),(3,1),(4,1),(5,1),(6,1),(7,9),(7,4)]) < 7" by (simp add: qualifying_def)
  show ?thesis using h l insufficient_history[of 7 "[(1,1),(2,1),(3,1),(4,1),(5,1),(6,1),(7,9),(7,4)]" "''X''"] by blast
qed

text \<open>
  Seven pairs of one and the same day: a single qualifying day, and yet a sample, whose
  ``7-day'' volume is the sum of the seven pairs.
\<close>

theorem sample_from_one_repeated_day:
  "qualifying_days (2::int) [(1,1),(1,1),(1,1),(1,1),(1,1),(1,1),(1,1)] = 1
   \<and> rolling_7day (2::int) [(1,1),(1,1),(1,1),(1,1),(1,1),(1,1),(1,1)] ''X''
       = Some \<lparr>exchange = ''X'', volume_7d = 7, avg_daily = 1, wow_pct = None\<rparr>"
  by (simp add: rolling_7day_def qualifying_days_def qualifying_def slice_last_def Let_def)

section \<open>Properties of the holdings aggregators\<close>

lemma to_tokens_nonneg: "0 \<le> n \<Longrightarrow> 0 \<le> to_tokens n"
  by (simp add: to_tokens_def)

lemma to_tokens_less: "a < b \<Longrightarrow> to_tokens a < to_tokens b"
  by (simp add: to_tokens_def divide_strict_right_mono)

lemma vi_locked_nonneg: "0 \<le> vi_locked (get_vesting_info env c)"
  by (simp add: get_vesting_info_def Let_def)

lemma sum_list_filter_le:
  fixes f :: "'a \<Rightarrow> real"
  assumes "\<forall>p \<in> set ps. 0 \<le> f p"
  shows "sum_list (map f (filter P ps)) \<le> sum_list (map f ps)"
  using assms by (induction ps) (auto intro: add_increasing)

lemma get_staked_positions_deposit:
  assumes "nonneg_chain_reads env" "p \<in> set (get_staked_positions env now who)"
  shows "0 \<le> deposit p"
proof (cases "goldsky_positions env (lower who)")
  case None
  with assms(2) show ?thesis by (simp add: get_staked_positions_def)
next
  case (Some ps)
  with assms(2) obtain r where r: "r \<in> set ps" "deposit p = to_tokens (raw_deposit r)"
    by (auto simp: get_staked_positions_def)
  from assms(1) Some r(1) have "0 \<le> raw_deposit r"
    unfolding nonneg_chain_reads_def by blast
  with r(2) show ?thesis by (simp add: to_tokens_nonneg)
qed

lemma load_holdings_step_inv:
  assumes "nonneg_chain_reads env" "holdings_inv (fst st)"
  shows "holdings_inv (fst (load_holdings_step env now entry st))"
proof -
  have d: "\<forall>p \<in> set (map (\<lambda>p. p\<lparr>pos_rewards := Some (get_position_rewards env (pos_id p))\<rparr>)
                        (get_staked_positions env now (addr (snd entry)))). 0 \<le> deposit p"
    using get_staked_positions_deposit[OF assms(1)] by auto
  show ?thesis
    using assms(2) vi_locked_nonneg[of env "addr (snd entry)"] sum_list_filter_le[OF d, of is_expired]
    by (auto simp: load_holdings_step_def holdings_inv_def Let_def)
qed

lemma fold_load_holdings_inv:
  assumes "nonneg_chain_reads env" "holdings_inv (fst st)"
  shows "holdings_inv (fst (fold (load_holdings_step env now) ws st))"
  using assms(2)
  by (induction ws arbitrary: st) (simp_all add: load_holdings_step_inv[OF assms(1)])

lemma holdings_inv_init: "holdings_inv results_init"
  by (simp add: holdings_inv_def results_init_def)

lemma load_holdings_sellable_le:
  assumes "nonneg_chain_reads env"
  shows "total_sellable (load_holdings env now ws) \<le> total_holdings (load_holdings env now ws)"
proof -
  have "holdings_inv (fst (fold (load_holdings_step env now) ws (results_init, [])))"
    by (rule fold_load_holdings_inv[OF assms]) (simp add: holdings_inv_init)
  then show ?thesis by (simp add: load_holdings_def Let_def holdings_inv_def)
qed

lemma get_staked_positions_csv_deposit:
  assumes "\<forall>df r. Readable df \<in> set files \<longrightarrow> r \<in> set df \<longrightarrow> 0 \<le> net_deposited r"
    "p \<in> set (get_staked_positions_csv now files who)"
  shows "0 \<le> deposit p"
  using assms
proof (induction files)
  case Nil
  then show ?case by simp
next
  case (Cons f files)
  have rest: "\<forall>df r. Readable df \<in> set files \<longrightarrow> r \<in> set df \<longrightarrow> 0 \<le> net_deposited r"
    using Cons.prems(1) by auto
  show ?case
  proof (cases f)
    case Missing
    with Cons.prems(2) have "p \<in> set (get_staked_positions_csv now files who)" by simp
    then show ?thesis using Cons.IH rest by blast
  next
    case Unreadable
    with Cons.prems(2) have "p \<in> set (get_staked_positions_csv now files who)" by simp
    then show ?thesis using Cons.IH rest by blast
  next
    case (Readable df)
    show ?thesis
    proof (cases "filter (\<lambda>r. lower (owner r) = lower who) df = []")
      case True
      with Readable Cons.prems(2) have "p \<in> set (get_staked_positions_csv now files who)"
        by simp
      then show ?thesis using Cons.IH rest by blast
    next
      case False
      with Readable Cons.prems(2) obtain r where "r \<in> set df" "deposit p = net_deposited r"
        by (auto simp: Let_def)
      then show ?thesis using Cons.prems(1) Readable by auto
    qed
  qed
qed

lemma load_holdings_digest_step_inv:
  assumes "nonneg_digest_reads env" "holdings_inv res"
  shows "holdings_inv (load_holdings_digest_step env now entry res)"
proof -
  let ?ps0 = "get_staked_positions_csv now (csv_files env) (addr (snd entry))"
  let ?reward_of = "\<lambda>p. case get_all_position_rewards (multicall env) (map pos_id ?ps0) (pos_id p)
                         of Some r \<Rightarrow> r | None \<Rightarrow> (0::real)"
  have "\<forall>p \<in> set ?ps0. 0 \<le> deposit p"
    using get_staked_positions_csv_deposit assms(1) unfolding nonneg_digest_reads_def by blast
  then have d: "\<forall>p \<in> set (map (\<lambda>p. p\<lparr>pos_rewards := Some (?reward_of p)\<rparr>) ?ps0). 0 \<le> deposit p"
    by auto
  show ?thesis
    using assms(2) vi_locked_nonneg[of "chain env" "addr (snd entry)"]
      sum_list_filter_le[OF d, of is_expired]
    by (auto simp: load_holdings_digest_step_def holdings_inv_def Let_def)
qed

lemma fold_load_holdings_digest_inv:
  assumes "nonneg_digest_reads env" "holdings_inv res"
  shows "holdings_inv (fold (load_holdings_digest_step env now) ws res)"
  using assms(2)
  by (induction ws arbitrary: res) (simp_all add: load_holdings_digest_step_inv[OF assms(1)])

lemma load_holdings_digest_sellable_le:
  assumes "nonneg_digest_reads env"
  shows "total_sellable (load_holdings_digest env now ws) \<le> total_holdings (load_holdings_digest env now ws)"
proof -
  have "holdings_inv (fold (load_holdings_digest_step env now) ws results_init)"
    by (rule fold_load_holdings_digest_inv[OF assms holdings_inv_init])
  then show ?thesis by (simp add: load_holdings_digest_def Let_def holdings_inv_def MM_DEFAULTS_def)
qed

text \<open>
  C2: in every snapshot of the dashboard's aggregator \<open>total_holdings\<close> is
  \<open>liquid + liquid_bsc + vested_unclaimed + locked_vesting + staked_total + rewards\<close>, the
  market-maker holdings being added at presentation time only; the digest's aggregator
  adds its configured market-maker holdings (330,940 + 537,202 = 868,142) to
  \<open>total_holdings\<close> itself; in both, \<open>total_sellable\<close> is
  \<open>liquid + liquid_bsc + vested_unclaimed + staked_expired + rewards\<close>.
\<close>

theorem holdings_totals:
  "(let h = load_holdings env now ws; d = load_holdings_digest denv now ws in
      total_holdings h = liquid h + liquid_bsc h + vested_unclaimed h + locked_vesting h
                           + staked_total h + rewards h
    \<and> total_sellable h = liquid h + liquid_bsc h + vested_unclaimed h + staked_expired h
                           + rewards h
    \<and> total_holdings_adj h mm_amber mm_jpeg
         = total_holdings h + real_of_int mm_amber + real_of_int mm_jpeg
    \<and> total_sellable_adj h = total_sellable h
    \<and> total_holdings d = liquid d + liquid_bsc d + vested_unclaimed d + locked_vesting d
                           + staked_total d + rewards d + mm_holdings d
    \<and> mm_holdings d = 868142
    \<and> total_sellable d = liquid d + liquid_bsc d + vested_unclaimed d + staked_expired d
                           + rewards d)"
  by (simp add: load_holdings_def load_holdings_digest_def total_holdings_adj_def
        total_sellable_adj_def MM_DEFAULTS_def Let_def)

text \<open>
  With every request failing the six terms are 0 and the digest's snapshot still has a
  total of 868,142: the market-maker holdings are inside the aggregator's total.
\<close>

theorem digest_total_includes_market_makers:
  "total_holdings (load_holdings_digest failing_digest_reads 0 FOUNDATION_WALLETS) = 868142
   \<and> liquid (load_holdings_digest failing_digest_reads 0 FOUNDATION_WALLETS)
       + liquid_bsc (load_holdings_digest failing_digest_reads 0 FOUNDATION_WALLETS)
       + vested_unclaimed (load_holdings_digest failing_digest_reads 0 FOUNDATION_WALLETS)
       + locked_vesting (load_holdings_digest failing_digest_reads 0 FOUNDATION_WALLETS)
       + staked_total (load_holdings_digest failing_digest_reads 0 FOUNDATION_WALLETS)
       + rewards (load_holdings_digest failing_digest_reads 0 FOUNDATION_WALLETS) = 0"
  by (simp add: load_holdings_digest_def load_holdings_digest_step_def failing_digest_reads_def
        failing_reads_def FOUNDATION_WALLETS_def results_init_def get_vesting_info_def
        get_token_balance_def get_bsc_token_balance_def get_all_position_rewards_def
        MM_DEFAULTS_def Let_def)

text \<open>
  C4: for every snapshot produced from non-negative inputs (all fetched balances,
  claimable amounts, position deposits and rewards at least 0), by the dashboard's
  aggregator or by the digest's, \<open>total_sellable \<le> total_holdings\<close>.
\<close>

theorem sellable_le_holdings:
  "(nonneg_chain_reads env \<longrightarrow>
      total_sellable (load_holdings env now ws) \<le> total_holdings (load_holdings env now ws))
   \<and> (nonneg_digest_reads denv \<longrightarrow>
      total_sellable (load_holdings_digest denv now ws)
        \<le> total_holdings (load_holdings_digest denv now ws))"
  using load_holdings_sellable_le load_holdings_digest_sellable_le by blast

theorem sellable_le_holdings_witness:
  "nonneg_chain_reads sample_reads \<and> nonneg_digest_reads sample_digest_reads
   \<and> total_sellable (load_holdings sample_reads 1000 FOUNDATION_WALLETS)
        \<le> total_holdings (load_holdings sample_reads 1000 FOUNDATION_WALLETS)
   \<and> total_sellable (load_holdings_digest sample_digest_reads 1000 FOUNDATION_WALLETS)
        \<le> total_holdings (load_holdings_digest sample_digest_reads 1000 FOUNDATION_WALLETS)"
proof -
  have c: "nonneg_chain_reads sample_reads"
    by (simp add: nonneg_chain_reads_def sample_reads_def)
  have d: "nonneg_digest_reads sample_digest_reads"
    by (auto simp add: nonneg_digest_reads_def nonneg_chain_reads_def sample_reads_def
          sample_digest_reads_def sample_positions_csv_def)
  show ?thesis
    using c d sellable_le_holdings[of sample_reads 1000 FOUNDATION_WALLETS sample_digest_reads]
    by blast
qed

text \<open>
  C8: for every vesting wallet the derived locked amount is
  \<open>max(0, balance - claimable)\<close>: it is never negative, it is 0 whenever the fetched
  claimable value exceeds the fetched balance (balance 90 and claimable 100 give 0), the
  reader returns its record all the same, and the aggregators add that amount to
  \<open>locked_vesting\<close>.
\<close>

theorem vesting_locked_clamped:
  "(let vi = get_vesting_info env c in
      vi_locked vi = max 0 (vi_balance vi - vi_vested_unclaimed vi)
    \<and> 0 \<le> vi_locked vi
    \<and> (vi_balance vi < vi_vested_unclaimed vi \<longrightarrow> vi_locked vi = 0)
    \<and> vi_balance vi = get_token_balance env c
    \<and> (\<forall>b k. tokenbalance env c = Some b \<and> vesting_claimable env c = Some k \<longrightarrow>
          vi_balance vi = to_tokens b \<and> vi_vested_unclaimed vi = to_tokens k
          \<and> (b < k \<longrightarrow> vi_locked vi = 0))
    \<and> (wtype info = ''vesting'' \<and> addr info = c \<longrightarrow>
          locked_vesting (fst (load_holdings_step env now (name, info) st))
            = locked_vesting (fst st) + vi_locked vi
        \<and> locked_vesting (load_holdings_digest_step \<lparr>chain = env, csv_files = fs, multicall = mc\<rparr>
                             now (name, info) res)
            = locked_vesting res + vi_locked vi))"
proof -
  let ?vi = "get_vesting_info env c"
  have clamp: "vi_locked ?vi = max 0 (vi_balance ?vi - vi_vested_unclaimed ?vi)"
    by (simp add: get_vesting_info_def Let_def)
  then have zero: "vi_balance ?vi < vi_vested_unclaimed ?vi \<longrightarrow> vi_locked ?vi = 0"
    by simp
  have bal: "vi_balance ?vi = get_token_balance env c"
    by (simp add: get_vesting_info_def Let_def)
  have raw: "\<forall>b k. tokenbalance env c = Some b \<and> vesting_claimable env c = Some k \<longrightarrow>
          vi_balance ?vi = to_tokens b \<and> vi_vested_unclaimed ?vi = to_tokens k
          \<and> (b < k \<longrightarrow> vi_locked ?vi = 0)"
    using to_tokens_less by (auto simp: get_vesting_info_def get_token_balance_def Let_def)
  have agg: "wtype info = ''vesting'' \<and> addr info = c \<longrightarrow>
          locked_vesting (fst (load_holdings_step env now (name, info) st))
            = locked_vesting (fst st) + vi_locked ?vi
        \<and> locked_vesting (load_holdings_digest_step \<lparr>chain = env, csv_files = fs, multicall = mc\<rparr>
                             now (name, info) res)
            = locked_vesting res + vi_locked ?vi"
    by (simp add: load_holdings_step_def load_holdings_digest_step_def Let_def)
  show ?thesis
    unfolding Let_def using clamp vi_locked_nonneg[of env c] zero bal raw agg by blast
qed

theorem vesting_locked_clamped_witness:
  "vi_balance (get_vesting_info inconsistent_reads ''0x4110d73ff4d4fe45af2762df2205ad95c8c9679b'') = 90
   \<and> vi_vested_unclaimed
        (get_vesting_info inconsistent_reads ''0x4110d73ff4d4fe45af2762df2205ad95c8c9679b'') = 100
   \<and> vi_locked (get_vesting_info inconsistent_reads ''0x4110d73ff4d4fe45af2762df2205ad95c8c9679b'') = 0"
proof -
  have b: "vi_balance
             (get_vesting_info inconsistent_reads ''0x4110d73ff4d4fe45af2762df2205ad95c8c9679b'') = 90"
    by (simp add: get_vesting_info_def get_token_balance_def inconsistent_reads_def to_tokens_def
          DECIMALS_def Let_def)
  have v: "vi_vested_unclaimed
             (get_vesting_info inconsistent_reads ''0x4110d73ff4d4fe45af2762df2205ad95c8c9679b'') = 100"
    by (simp add: get_vesting_info_def get_token_balance_def inconsistent_reads_def to_tokens_def
          DECIMALS_def Let_def)
  show ?thesis
    using b v
      vesting_locked_clamped[of inconsistent_reads "''0x4110d73ff4d4fe45af2762df2205ad95c8c9679b''"]
    unfolding Let_def by simp
qed

section \<open>Properties of the staking rewards projection\<close>

lemma schedule_last_date: "\<forall>e \<in> set REWARDS_SCHEDULE. fst e \<le> (2035, 10, 14)"
  by (simp add: REWARDS_SCHEDULE_def)

lemma schedule_tail:
  "\<exists>front. REWARDS_SCHEDULE =
     front @ [((2035, 8, 14), 224734.15), ((2035, 9, 14), 225132.88), ((2035, 10, 14), 225532.33)]"
proof
  show "REWARDS_SCHEDULE = take 117 REWARDS_SCHEDULE @
     [((2035, 8, 14), 224734.15), ((2035, 9, 14), 225132.88), ((2035, 10, 14), 225532.33)]"
    by (simp add: REWARDS_SCHEDULE_def)
qed

lemma schedule_sorted: "sorted (map fst REWARDS_SCHEDULE)"
  unfolding REWARDS_SCHEDULE_def list.map fst_conv
  by (simp only: sorted2_simps less_eq_prod_simp) simp

lemma future_pools_sorted: "sorted (map fst (future_pools today))"
  unfolding future_pools_def using schedule_sorted by (simp add: sorted_filter)

lemma future_pools_nonempty_iff: "future_pools today \<noteq> [] \<longleftrightarrow> today \<le> (2035, 10, 14)"
proof
  assume "future_pools today \<noteq> []"
  then obtain e where "e \<in> set REWARDS_SCHEDULE" "today \<le> fst e"
    unfolding future_pools_def by (auto simp: filter_empty_conv)
  with schedule_last_date show "today \<le> (2035, 10, 14)" by (meson order_trans)
next
  assume t: "today \<le> (2035, 10, 14)"
  obtain front where f: "REWARDS_SCHEDULE =
     front @ [((2035, 8, 14), 224734.15), ((2035, 9, 14), 225132.88), ((2035, 10, 14), 225532.33)]"
    using schedule_tail by blast
  have "((2035, 10, 14), 225532.33) \<in> set (future_pools today)"
    using t unfolding future_pools_def f by simp
  then show "future_pools today \<noteq> []" by auto
qed

lemma future_pools_three:
  assumes "today \<le> (2035, 8, 14)"
  shows "length (take 3 (future_pools today)) = 3"
proof -
  obtain front where f: "REWARDS_SCHEDULE =
     front @ [((2035, 8, 14), 224734.15), ((2035, 9, 14), 225132.88), ((2035, 10, 14), 225532.33)]"
    using schedule_tail by blast
  have "(2035, 8, 14) \<le> ((2035, 9, 14)::ymd)" "(2035, 8, 14) \<le> ((2035, 10, 14)::ymd)" by simp_all
  with assms have "today \<le> (2035, 9, 14)" "today \<le> (2035, 10, 14)"
    by (meson order_trans)+
  with assms have "3 \<le> length (future_pools today)"
    unfolding future_pools_def f by simp
  then show ?thesis by simp
qed

lemma projection_unfold:
  assumes "first_readable files = Some pos_df" "sum_list (map csv_stake pos_df) \<noteq> 0"
    "future_pools today \<noteq> []"
  shows "load_staking_rewards_projection today files =
           Some (map (\<lambda>(d, pool). \<lparr>label = strftime_b_Y d,
                                    reward = pool * 0.80 * foundation_share pos_df\<rparr>)
                     (take 3 (future_pools today)))"
  using assms
  by (simp add: load_staking_rewards_projection_def foundation_share_def future_pools_def Let_def
        case_prod_beta)

lemma projection_none:
  "first_readable files = None \<Longrightarrow> load_staking_rewards_projection today files = None"
  "first_readable files = Some pos_df \<Longrightarrow> sum_list (map csv_stake pos_df) = 0 \<Longrightarrow>
     load_staking_rewards_projection today files = None"
  "future_pools today = [] \<Longrightarrow> load_staking_rewards_projection today files = None"
  by (simp_all add: load_staking_rewards_projection_def future_pools_def Let_def split: option.splits)

text \<open>
  C10: when a positions CSV is readable, the total stake weight is strictly positive and
  a schedule date on or after today remains (today is not after 14 October 2035), the
  projection returns one row for each of the first three schedule dates on or after
  today (as many as remain when fewer do; three when today is not after 14 August
  2035), each with the reward \<open>pool \<times> 0.80 \<times> (foundation stake weight / total stake
  weight)\<close>; when the total stake weight is 0, no CSV is readable or no such date remains
  it returns absence-of-value.  The schedule is in ascending order of date, so the first
  three entries on or after today are the next three dates.
\<close>

theorem rewards_projection_rows:
  "(first_readable files = Some pos_df \<and> 0 < sum_list (map csv_stake pos_df)
      \<and> today \<le> (2035, 10, 14) \<longrightarrow>
        load_staking_rewards_projection today files =
          Some (map (\<lambda>(d, pool). \<lparr>label = strftime_b_Y d,
                                   reward = pool * 0.80 * foundation_share pos_df\<rparr>)
                    (take 3 (future_pools today)))
        \<and> future_pools today \<noteq> []
        \<and> (today \<le> (2035, 8, 14) \<longrightarrow> length (take 3 (future_pools today)) = 3))
   \<and> (first_readable files = None \<longrightarrow> load_staking_rewards_projection today files = None)
   \<and> (first_readable files = Some pos_df \<and> sum_list (map csv_stake pos_df) = 0 \<longrightarrow>
        load_staking_rewards_projection today files = None)
   \<and> (\<not> today \<le> (2035, 10, 14) \<longrightarrow> load_staking_rewards_projection today files = None)
   \<and> sorted (map fst (future_pools today))"
proof -
  have "load_staking_rewards_projection today files =
          Some (map (\<lambda>(d, pool). \<lparr>label = strftime_b_Y d,
                                   reward = pool * 0.80 * foundation_share pos_df\<rparr>)
                    (take 3 (future_pools today)))
        \<and> future_pools today \<noteq> []
        \<and> (today \<le> (2035, 8, 14) \<longrightarrow> length (take 3 (future_pools today)) = 3)"
    if "first_readable files = Some pos_df" "0 < sum_list (map csv_stake pos_df)"
      "today \<le> (2035, 10, 14)"
  proof -
    have ne: "future_pools today \<noteq> []" using that(3) by (simp add: future_pools_nonempty_iff)
    have "sum_list (map csv_stake pos_df) \<noteq> 0" using that(2) by simp
    from projection_unfold[OF that(1) this ne] ne future_pools_three show ?thesis by blast
  qed
  moreover have "load_staking_rewards_projection today files = None"
    if "\<not> today \<le> (2035, 10, 14)"
    using that projection_none(3) future_pools_nonempty_iff by blast
  ultimately show ?thesis using projection_none(1,2) future_pools_sorted by blast
qed

theorem rewards_projection_rows_witness:
  "first_readable [Unreadable, Readable sample_positions_csv] = Some sample_positions_csv
   \<and> 0 < sum_list (map csv_stake sample_positions_csv)
   \<and> foundation_share sample_positions_csv = 1 / 4
   \<and> load_staking_rewards_projection (2026, 11, 3) [Unreadable, Readable sample_positions_csv]
       = Some [\<lparr>label = ''Nov 2026'', reward = 217717.58 * 0.80 * (1 / 4)\<rparr>,
               \<lparr>label = ''Dec 2026'', reward = 207348.92 * 0.80 * (1 / 4)\<rparr>,
               \<lparr>label = ''Jan 2027'', reward = 200254.63 * 0.80 * (1 / 4)\<rparr>]"
proof -
  have r: "first_readable [Unreadable, Readable sample_positions_csv] = Some sample_positions_csv"
    by simp
  have p: "0 < sum_list (map csv_stake sample_positions_csv)"
    by (simp add: sample_positions_csv_def)
  have t: "(2026, 11, 3) \<le> ((2035, 10, 14)::ymd)" by simp
  have fs: "foundation_share sample_positions_csv = 1 / 4"
    by (simp add: foundation_share_def sample_positions_csv_def FOUNDATION_STAKING_ADDR_def
          lower_def lower_char_def char_of_def bit_0)
  have fp: "take 3 (future_pools (2026, 11, 3))
              = [((2026, 11, 14), 217717.58), ((2026, 12, 14), 207348.92),
                 ((2027, 1, 14), 200254.63)]"
    by (simp add: future_pools_def REWARDS_SCHEDULE_def)
  have lb: "strftime_b_Y (2026, 11, 14) = ''Nov 2026''" "strftime_b_Y (2026, 12, 14) = ''Dec 2026''"
    "strftime_b_Y (2027, 1, 14) = ''Jan 2027''" "strftime_b_Y (2027, Suc 0, 14) = ''Jan 2027''"
    by (simp_all add: strftime_b_Y_def month_abbr_def char_of_def bit_0)
  from rewards_projection_rows
         [of "[Unreadable, Readable sample_positions_csv]" sample_positions_csv "(2026, 11, 3)"]
    r p t
  have "load_staking_rewards_projection (2026, 11, 3) [Unreadable, Readable sample_positions_csv] =
          Some (map (\<lambda>(d, pool). \<lparr>label = strftime_b_Y d,
                                   reward = pool * 0.80 * foundation_share sample_positions_csv\<rparr>)
                    (take 3 (future_pools (2026, 11, 3))))"
    by blast
  then show ?thesis using r p fs unfolding fp by (simp add: lb)
qed

text \<open>
  On 15 October 2035, with a readable CSV and a positive total stake weight, no schedule
  date remains and the projection is absent.
\<close>

theorem no_projection_after_schedule_end:
  "first_readable [Missing, Readable sample_positions_csv] = Some sample_positions_csv
   \<and> 0 < sum_list (map csv_stake sample_positions_csv)
   \<and> load_staking_rewards_projection (2035, 10, 15) [Missing, Readable sample_positions_csv] = None"
  by (simp add: load_staking_rewards_projection_def REWARDS_SCHEDULE_def sample_positions_csv_def)

end
